theory Spec2Isabelle
  imports
    Main
    "HOL-Library.FSet"
    "HOL-Library.Finite_Map"
    "HOL-Library.Char_ord"
    "HOL-Library.List_Lexorder"
    "HOL-Library.Word"
begin

section \<open>Property values and property maps (pkg/resource/properties.go)\<close>

text \<open>
  A \<open>PropertyValue\<close> boxes an \<open>interface{}\<close> payload; the nine constructors
  \<open>NewNullProperty\<close> ... \<open>NewOutputProperty\<close> are the only producers, so the payload is
  a nine-way tagged union. \<open>Computed\<close> and \<open>Output\<close> are both declared as
  \<open>PropertyValue\<close> under another name, and \<open>Eventual\<close> converts back; the wrapped value
  is the constructor's argument here. Numbers are only ever copied, never computed with, so a
  \<open>float64\<close> is carried as its 64-bit pattern. Slices are lists (a nil slice and an empty
  one are the same list), and \<open>PropertyMap\<close>, a Go map, is a finite map.
\<close>

type_synonym PropertyKey = string

text \<open>Modelled from the spec: \<open>URN\<close> and \<open>ID\<close> are declared outside the two source
  files; the code converts both to and from \<open>string\<close>, and the spec calls them an opaque
  identity token and a provider-assigned identifier.\<close>

type_synonym URN = string
type_synonym ID = string
type_synonym float64 = "64 word"

datatype PropertyValue =
    PNull
  | PBool bool
  | PNumber float64
  | PString string
  | PArray "PropertyValue list"
  | PObject "(PropertyKey, PropertyValue) fmap"
  | PResource URN
  | PComputed PropertyValue
  | POutput PropertyValue

type_synonym PropertyMap = "(PropertyKey, PropertyValue) fmap"

text \<open>Indexing a Go map at a missing key yields the zero value, here
  \<open>PropertyValue{nil}\<close>, which is the null property.\<close>

definition PropertyMap_index :: "PropertyMap \<Rightarrow> PropertyKey \<Rightarrow> PropertyValue" where
  "PropertyMap_index m k = (case fmlookup m k of None \<Rightarrow> PNull | Some v \<Rightarrow> v)"

text \<open>Modelled from the spec: \<open>StablePropertyKeys\<close> is defined outside the two source
  files. The spec: given a PropertyMap, it returns its keys in a stable, reproducible order,
  lexicographic by key.\<close>

definition StablePropertyKeys :: "PropertyMap \<Rightarrow> PropertyKey list" where
  "StablePropertyKeys m = sorted_list_of_fset (fmdom m)"

fun IsNull :: "PropertyValue \<Rightarrow> bool" where
  "IsNull PNull = True"
| "IsNull _ = False"

fun IsBool :: "PropertyValue \<Rightarrow> bool" where
  "IsBool (PBool _) = True"
| "IsBool _ = False"

fun IsNumber :: "PropertyValue \<Rightarrow> bool" where
  "IsNumber (PNumber _) = True"
| "IsNumber _ = False"

fun IsString :: "PropertyValue \<Rightarrow> bool" where
  "IsString (PString _) = True"
| "IsString _ = False"

fun IsArray :: "PropertyValue \<Rightarrow> bool" where
  "IsArray (PArray _) = True"
| "IsArray _ = False"

fun IsObject :: "PropertyValue \<Rightarrow> bool" where
  "IsObject (PObject _) = True"
| "IsObject _ = False"

fun IsResource :: "PropertyValue \<Rightarrow> bool" where
  "IsResource (PResource _) = True"
| "IsResource _ = False"

fun IsComputed :: "PropertyValue \<Rightarrow> bool" where
  "IsComputed (PComputed _) = True"
| "IsComputed _ = False"

fun IsOutput :: "PropertyValue \<Rightarrow> bool" where
  "IsOutput (POutput _) = True"
| "IsOutput _ = False"

text \<open>The extractors are type assertions that panic on any other variant. They are
  selectors here, and every use below stands under the matching predicate, as in the source.\<close>

fun BoolValue :: "PropertyValue \<Rightarrow> bool" where
  "BoolValue (PBool b) = b"

fun NumberValue :: "PropertyValue \<Rightarrow> float64" where
  "NumberValue (PNumber n) = n"

fun StringValue :: "PropertyValue \<Rightarrow> string" where
  "StringValue (PString s) = s"

fun ArrayValue :: "PropertyValue \<Rightarrow> PropertyValue list" where
  "ArrayValue (PArray a) = a"

fun ObjectValue :: "PropertyValue \<Rightarrow> PropertyMap" where
  "ObjectValue (PObject obj) = obj"

fun ResourceValue :: "PropertyValue \<Rightarrow> URN" where
  "ResourceValue (PResource m) = m"

fun ComputedValue :: "PropertyValue \<Rightarrow> PropertyValue" where
  "ComputedValue (PComputed e) = e"

fun OutputValue :: "PropertyValue \<Rightarrow> PropertyValue" where
  "OutputValue (POutput e) = e"

subsection \<open>Typed accessors\<close>

text \<open>
  An accessor returns a pointer and an \<open>error\<close>: the pointer is an option (\<open>None\<close> is
  nil), and so is the error. \<open>ReqError\<close> carries the key. \<open>errors.Errorf\<close> builds an
  error from a message: the model keeps what the message says the property is not, and the key.
\<close>

datatype error =
    ReqError PropertyKey
  | Errorf string PropertyKey

fun IsReqError :: "error option \<Rightarrow> bool" where
  "IsReqError (Some (ReqError _)) = True"
| "IsReqError _ = False"

definition BoolOrErr :: "PropertyMap \<Rightarrow> PropertyKey \<Rightarrow> bool \<Rightarrow> bool option \<times> error option" where
  "BoolOrErr m k req =
     (let v = PropertyMap_index m k; has = (k |\<in>| fmdom m) in
      if has \<and> \<not> IsNull v then
        if \<not> IsBool v then (None, Some (Errorf ''not a bool'' k))
        else (Some (BoolValue v), None)
      else if req then (None, Some (ReqError k))
      else (None, None))"

definition NumberOrErr :: "PropertyMap \<Rightarrow> PropertyKey \<Rightarrow> bool \<Rightarrow> float64 option \<times> error option" where
  "NumberOrErr m k req =
     (let v = PropertyMap_index m k; has = (k |\<in>| fmdom m) in
      if has \<and> \<not> IsNull v then
        if \<not> IsNumber v then (None, Some (Errorf ''not a number'' k))
        else (Some (NumberValue v), None)
      else if req then (None, Some (ReqError k))
      else (None, None))"

definition StringOrErr :: "PropertyMap \<Rightarrow> PropertyKey \<Rightarrow> bool \<Rightarrow> string option \<times> error option" where
  "StringOrErr m k req =
     (let v = PropertyMap_index m k; has = (k |\<in>| fmdom m) in
      if has \<and> \<not> IsNull v then
        if \<not> IsString v then (None, Some (Errorf ''not a string'' k))
        else (Some (StringValue v), None)
      else if req then (None, Some (ReqError k))
      else (None, None))"

definition ArrayOrErr ::
    "PropertyMap \<Rightarrow> PropertyKey \<Rightarrow> bool \<Rightarrow> PropertyValue list option \<times> error option" where
  "ArrayOrErr m k req =
     (let v = PropertyMap_index m k; has = (k |\<in>| fmdom m) in
      if has \<and> \<not> IsNull v then
        if \<not> IsArray v then (None, Some (Errorf ''not an array'' k))
        else (Some (ArrayValue v), None)
      else if req then (None, Some (ReqError k))
      else (None, None))"

definition ObjectOrErr ::
    "PropertyMap \<Rightarrow> PropertyKey \<Rightarrow> bool \<Rightarrow> PropertyMap option \<times> error option" where
  "ObjectOrErr m k req =
     (let v = PropertyMap_index m k; has = (k |\<in>| fmdom m) in
      if has \<and> \<not> IsNull v then
        if \<not> IsObject v then (None, Some (Errorf ''not an object'' k))
        else (Some (ObjectValue v), None)
      else if req then (None, Some (ReqError k))
      else (None, None))"

text \<open>The messages of the next three say "is not an object", as the source's do.\<close>

definition ResourceOrErr :: "PropertyMap \<Rightarrow> PropertyKey \<Rightarrow> bool \<Rightarrow> URN option \<times> error option" where
  "ResourceOrErr m k req =
     (let v = PropertyMap_index m k; has = (k |\<in>| fmdom m) in
      if has \<and> \<not> IsNull v then
        if \<not> IsResource v then (None, Some (Errorf ''not an object'' k))
        else (Some (ResourceValue v), None)
      else if req then (None, Some (ReqError k))
      else (None, None))"

definition ComputedOrErr ::
    "PropertyMap \<Rightarrow> PropertyKey \<Rightarrow> bool \<Rightarrow> PropertyValue option \<times> error option" where
  "ComputedOrErr m k req =
     (let v = PropertyMap_index m k; has = (k |\<in>| fmdom m) in
      if has \<and> \<not> IsNull v then
        if \<not> IsComputed v then (None, Some (Errorf ''not an object'' k))
        else (Some (ComputedValue v), None)
      else if req then (None, Some (ReqError k))
      else (None, None))"

definition OutputOrErr ::
    "PropertyMap \<Rightarrow> PropertyKey \<Rightarrow> bool \<Rightarrow> PropertyValue option \<times> error option" where
  "OutputOrErr m k req =
     (let v = PropertyMap_index m k; has = (k |\<in>| fmdom m) in
      if has \<and> \<not> IsNull v then
        if \<not> IsOutput v then (None, Some (Errorf ''not an object'' k))
        else (Some (OutputValue v), None)
      else if req then (None, Some (ReqError k))
      else (None, None))"

subsection \<open>Resource discovery and replacement\<close>

text \<open>A value in a finite map, or in a list, is smaller than the map or the list: the
  recursions below descend through both.\<close>

lemma size_fmlookup:
  assumes "fmlookup m k = Some v"
  shows "size v < size_fmap (\<lambda>_. 0) size m"
proof -
  have mem: "(k, v) \<in> fset (fset_of_fmap m)"
    using assms by (simp add: fset_of_fmap_iff')
  have "(\<lambda>(a, b). Suc (size b)) (k, v)
          \<le> (\<Sum>x\<in>fset (fset_of_fmap m). (\<lambda>(a, b). Suc (size b)) x)"
    using mem by (intro member_le_sum) simp_all
  then show ?thesis
    by (simp add: case_prod_unfold)
qed

lemma size_list_member: "x \<in> set xs \<Longrightarrow> size x < Suc (size_list size xs)"
  by (induction xs) auto

text \<open>\<open>AllResources\<close> returns a \<open>map[URN]bool\<close> whose values are all \<open>true\<close>: a set.
  Each loop copies the entries of the inner result into \<open>URNs\<close>.\<close>

function (sequential)
    PropertyMap_AllResources :: "PropertyMap \<Rightarrow> URN set"
  and PropertyValue_AllResources :: "PropertyValue \<Rightarrow> URN set"
where
  "PropertyMap_AllResources m =
     fold (\<lambda>k URNs. URNs \<union> PropertyValue_AllResources (PropertyMap_index m k))
       (StablePropertyKeys m) {}"
| "PropertyValue_AllResources (PResource u) = {u}"
| "PropertyValue_AllResources (PArray arr) =
     fold (\<lambda>elem URNs. URNs \<union> PropertyValue_AllResources elem) arr {}"
| "PropertyValue_AllResources (PObject obj) = {} \<union> PropertyMap_AllResources obj"
| "PropertyValue_AllResources _ = {}"
  by pat_completeness auto
termination
  apply (relation "inv_image (less_than <*lex*> less_than)
     (\<lambda>x. case x of Inl m \<Rightarrow> (size_fmap (\<lambda>_. 0) size m, 1::nat)
                   | Inr v \<Rightarrow> (size v, 0))")
  apply (auto simp: PropertyMap_index_def size_fmlookup size_list_member
              simp del: size_fmap_def split: option.splits)
  done

function (sequential)
    PropertyMap_ReplaceResources :: "(URN \<Rightarrow> URN) \<Rightarrow> PropertyMap \<Rightarrow> PropertyMap"
  and PropertyValue_ReplaceResources :: "(URN \<Rightarrow> URN) \<Rightarrow> PropertyValue \<Rightarrow> PropertyValue"
where
  "PropertyMap_ReplaceResources updater m =
     fold (\<lambda>k result.
             fmupd k (PropertyValue_ReplaceResources updater (PropertyMap_index m k)) result)
       (StablePropertyKeys m) fmempty"
| "PropertyValue_ReplaceResources updater (PResource m) = PResource (updater m)"
| "PropertyValue_ReplaceResources updater (PArray arr) =
     PArray (map (\<lambda>elem. PropertyValue_ReplaceResources updater elem) arr)"
| "PropertyValue_ReplaceResources updater (PObject obj) =
     PObject (PropertyMap_ReplaceResources updater obj)"
| "PropertyValue_ReplaceResources updater v = v"
  by pat_completeness auto
termination
  apply (relation "inv_image (less_than <*lex*> less_than)
     (\<lambda>x. case x of Inl (u, m) \<Rightarrow> (size_fmap (\<lambda>_. 0) size m, 1::nat)
                   | Inr (u, v) \<Rightarrow> (size v, 0))")
  apply (auto simp: PropertyMap_index_def size_fmlookup size_list_member
              simp del: size_fmap_def split: option.splits)
  done

section \<open>The wire format and marshaling (pkg/resource/rpc.go)\<close>

text \<open>
  A \<open>structpb.Value\<close> holds one of six kinds, or none when \<open>Kind\<close> is nil
  (\<open>Value_KindUnset\<close>). Pointers are options: a list holds \<open>*Value\<close> elements and a
  struct's \<open>Fields\<close> map holds \<open>*Value\<close> entries, each of which may be nil, and so may the
  \<open>*ListValue\<close> and the \<open>*Struct\<close> inside a value. A \<open>Struct\<close> is its \<open>Fields\<close> map.
\<close>

datatype Value =
    Value_NullValue
  | Value_NumberValue float64
  | Value_StringValue string
  | Value_BoolValue bool
  | Value_StructValue "(string, Value option) fmap option"
  | Value_ListValue "Value option list option"
  | Value_KindUnset

type_synonym Struct = "(string, Value option) fmap"

text \<open>Modelled from the spec: \<open>Context\<close> and the resource objects it holds are declared
  outside the two source files. The spec: a Context exposes a lookup from URN to a resource
  object exposing its own provider ID, and a lookup from URN to a prior-deployment provider
  ID. A \<open>*Context\<close> may be nil: a \<open>Context option\<close>.\<close>

datatype Resource = Resource (ID: ID)

record Context =
  URNRes :: "URN \<rightharpoonup> Resource"
  URNOldIDs :: "URN \<rightharpoonup> ID"

record MarshalOptions =
  PermitOlds :: bool
  RawURNs :: bool

text \<open>\<open>contract.Assertf\<close> and \<open>contract.Failf\<close> end the operation: a fault, one
  constructor for each call site.\<close>

datatype fault =
    NilContext
  | URNNotFound URN
  | EmptyID URN
  | UnexpectedUnknowns
  | UnrecognizedKind

text \<open>
  The unknown-key map \<open>unk\<close> is nil (\<open>None\<close>) until the first unknown property, and a
  \<open>map[string]bool\<close> with only \<open>true\<close> values afterwards: an optional set. Each loop is a
  \<open>fold\<close> over its range whose accumulator is the loop's variables, or the fault that
  ended it. The if-chain of \<open>MarshalPropertyValue\<close> is one equation for each variant, in
  the order of the source; its closing \<open>Failf\<close> ("Unrecognized property value") is reached
  by no value of the nine variants. The \<open>glog\<close> call only logs.
\<close>

function
    MarshalPropertiesWithUnknowns ::
      "Context option \<Rightarrow> PropertyMap \<Rightarrow> MarshalOptions \<Rightarrow> fault + (Struct \<times> string set option)"
  and MarshalPropertyValue ::
      "Context option \<Rightarrow> PropertyValue \<Rightarrow> MarshalOptions \<Rightarrow> fault + (Value \<times> bool)"
where
  "MarshalPropertiesWithUnknowns ctx props opts =
     fold (\<lambda>key acc.
        case acc of
          Inl f \<Rightarrow> Inl f
        | Inr (result, unk) \<Rightarrow>
            (let v = PropertyMap_index props key in
             if \<not> IsOutput v then
               (case MarshalPropertyValue ctx (PropertyMap_index props key) opts of
                  Inl f \<Rightarrow> Inl f
                | Inr (mv, known) \<Rightarrow>
                    Inr (fmupd key (Some mv) result,
                         if \<not> known
                         then Some (insert key (case unk of None \<Rightarrow> {} | Some s \<Rightarrow> s))
                         else unk))
             else Inr (result, unk)))
       (StablePropertyKeys props) (Inr (fmempty, None))"
| "MarshalPropertyValue ctx PNull opts = Inr (Value_NullValue, True)"
| "MarshalPropertyValue ctx (PBool b) opts = Inr (Value_BoolValue b, True)"
| "MarshalPropertyValue ctx (PNumber n) opts = Inr (Value_NumberValue n, True)"
| "MarshalPropertyValue ctx (PString s) opts = Inr (Value_StringValue s, True)"
| "MarshalPropertyValue ctx (PArray arr) opts =
     (case fold (\<lambda>elem acc.
              case acc of
                Inl f \<Rightarrow> Inl f
              | Inr (outcome, elems) \<Rightarrow>
                  (case MarshalPropertyValue ctx elem opts of
                     Inl f \<Rightarrow> Inl f
                   | Inr (elemv, known) \<Rightarrow> Inr (outcome \<and> known, elems @ [Some elemv])))
            arr (Inr (True, [])) of
        Inl f \<Rightarrow> Inl f
      | Inr (outcome, elems) \<Rightarrow> Inr (Value_ListValue (Some elems), outcome))"
| "MarshalPropertyValue ctx (PObject obj) opts =
     (case MarshalPropertiesWithUnknowns ctx obj opts of
        Inl f \<Rightarrow> Inl f
      | Inr (obj', unks) \<Rightarrow> Inr (Value_StructValue (Some obj'), unks = None))"
| "MarshalPropertyValue ctx (PResource m) opts =
     (if RawURNs opts then Inr (Value_StringValue m, True)
      else
        (case ctx of
           None \<Rightarrow> Inl NilContext
         | Some c \<Rightarrow>
             (case (case URNRes c m of
                      Some res \<Rightarrow> Inr (ID res)
                    | None \<Rightarrow>
                        (case URNOldIDs c m of
                           Some oldid \<Rightarrow>
                             if PermitOlds opts then Inr oldid else Inl (URNNotFound m)
                         | None \<Rightarrow> Inl (URNNotFound m))) of
                Inl f \<Rightarrow> Inl f
              | Inr rid \<Rightarrow>
                  if rid = [] then Inl (EmptyID m)
                  else Inr (Value_StringValue rid, True))))"
| "MarshalPropertyValue ctx (PComputed e) opts =
     (case MarshalPropertyValue ctx e opts of
        Inl f \<Rightarrow> Inl f
      | Inr (v, _) \<Rightarrow> Inr (v, False))"
| "MarshalPropertyValue ctx (POutput e) opts =
     (case MarshalPropertyValue ctx e opts of
        Inl f \<Rightarrow> Inl f
      | Inr (v, _) \<Rightarrow> Inr (v, False))"
  by pat_completeness auto
termination
  apply (relation "inv_image (less_than <*lex*> less_than)
     (\<lambda>x. case x of Inl (ctx, props, opts) \<Rightarrow> (size_fmap (\<lambda>_. 0) size props, 1::nat)
                   | Inr (ctx, v, opts) \<Rightarrow> (size v, 0))")
  apply (auto simp: PropertyMap_index_def size_fmlookup size_list_member
              simp del: size_fmap_def split: option.splits)
  done

definition MarshalProperties ::
    "Context option \<Rightarrow> PropertyMap \<Rightarrow> MarshalOptions \<Rightarrow> fault + Struct" where
  "MarshalProperties ctx props opts =
     (case MarshalPropertiesWithUnknowns ctx props opts of
        Inl f \<Rightarrow> Inl f
      | Inr (pstr, unks) \<Rightarrow> if unks = None then Inr pstr else Inl UnexpectedUnknowns)"

subsection \<open>Unmarshaling\<close>

text \<open>\<open>props.Fields[k]\<close> is the nil pointer at a missing key, and \<open>GetValues\<close> of a nil
  \<open>*ListValue\<close> is the empty list.\<close>

definition Fields_index :: "Struct \<Rightarrow> string \<Rightarrow> Value option" where
  "Fields_index flds k = (case fmlookup flds k of None \<Rightarrow> None | Some p \<Rightarrow> p)"

definition GetValues :: "Value option list option \<Rightarrow> Value option list" where
  "GetValues lst = (case lst of None \<Rightarrow> [] | Some vs \<Rightarrow> vs)"

lemma size_Fields_index:
  "size_option size (Fields_index flds k)
     \<le> Suc (size_fmap (\<lambda>_. 0) (size_option size) flds)"
proof (cases "fmlookup flds k")
  case None
  then show ?thesis by (simp add: Fields_index_def)
next
  case (Some p)
  have mem: "(k, p) \<in> fset (fset_of_fmap flds)"
    using Some by (simp add: fset_of_fmap_iff')
  have "(\<lambda>(a, b). Suc (size_option size b)) (k, p)
          \<le> (\<Sum>x\<in>fset (fset_of_fmap flds). (\<lambda>(a, b). Suc (size_option size b)) x)"
    using mem by (intro member_le_sum) simp_all
  then show ?thesis
    using Some by (simp add: Fields_index_def case_prod_unfold)
qed

lemma size_GetValues:
  "elem \<in> set (GetValues lst)
     \<Longrightarrow> size_option size elem < Suc (size_option (size_list (size_option size)) lst)"
proof (cases lst)
  case None
  assume "elem \<in> set (GetValues lst)"
  with None show ?thesis by (simp add: GetValues_def)
next
  case (Some vs)
  assume "elem \<in> set (GetValues lst)"
  with Some have "elem \<in> set vs" by (simp add: GetValues_def)
  then have "size_option size elem < Suc (size_list (size_option size) vs)"
    by (induction vs) auto
  with Some show ?thesis by simp
qed

function
    UnmarshalProperties :: "Struct option \<Rightarrow> fault + PropertyMap"
  and UnmarshalPropertyValue :: "Value option \<Rightarrow> fault + PropertyValue"
where
  "UnmarshalProperties None = Inr fmempty"
| "UnmarshalProperties (Some flds) =
     fold (\<lambda>k acc.
        case acc of
          Inl f \<Rightarrow> Inl f
        | Inr result \<Rightarrow>
            (case UnmarshalPropertyValue (Fields_index flds k) of
               Inl f \<Rightarrow> Inl f
             | Inr pv \<Rightarrow> Inr (fmupd k pv result)))
       (sorted_list_of_fset (fmdom flds)) (Inr fmempty)"
| "UnmarshalPropertyValue None = Inr PNull"
| "UnmarshalPropertyValue (Some Value_NullValue) = Inr PNull"
| "UnmarshalPropertyValue (Some (Value_BoolValue b)) = Inr (PBool b)"
| "UnmarshalPropertyValue (Some (Value_NumberValue n)) = Inr (PNumber n)"
| "UnmarshalPropertyValue (Some (Value_StringValue s)) = Inr (PString s)"
| "UnmarshalPropertyValue (Some (Value_ListValue lst)) =
     (case fold (\<lambda>elem acc.
              case acc of
                Inl f \<Rightarrow> Inl f
              | Inr elems \<Rightarrow>
                  (case UnmarshalPropertyValue elem of
                     Inl f \<Rightarrow> Inl f
                   | Inr pv \<Rightarrow> Inr (elems @ [pv])))
            (GetValues lst) (Inr []) of
        Inl f \<Rightarrow> Inl f
      | Inr elems \<Rightarrow> Inr (PArray elems))"
| "UnmarshalPropertyValue (Some (Value_StructValue s)) =
     (case UnmarshalProperties s of
        Inl f \<Rightarrow> Inl f
      | Inr props \<Rightarrow> Inr (PObject props))"
| "UnmarshalPropertyValue (Some Value_KindUnset) = Inl UnrecognizedKind"
  by pat_completeness auto
termination
  apply (relation "inv_image (less_than <*lex*> less_than)
     (\<lambda>x. case x of
             Inl s \<Rightarrow> (size_option (size_fmap (\<lambda>_. 0) (size_option size)) s, 1::nat)
           | Inr v \<Rightarrow> (size_option size v, 0))")
  apply (auto simp: size_Fields_index size_GetValues less_SucI le_neq_implies_less
              simp del: size_fmap_def)
  done

section \<open>Vocabulary of the properties\<close>

text \<open>\<open>everywhere P v\<close>: \<open>P\<close> holds of \<open>v\<close> and of every value inside it, through
  arrays, objects and the eventual values of computed and output properties.\<close>

function (sequential) everywhere :: "(PropertyValue \<Rightarrow> bool) \<Rightarrow> PropertyValue \<Rightarrow> bool" where
  "everywhere P (PArray arr) = (P (PArray arr) \<and> (\<forall>x\<in>set arr. everywhere P x))"
| "everywhere P (PObject obj) =
     (P (PObject obj) \<and> (\<forall>k\<in>fset (fmdom obj). everywhere P (PropertyMap_index obj k)))"
| "everywhere P (PComputed e) = (P (PComputed e) \<and> everywhere P e)"
| "everywhere P (POutput e) = (P (POutput e) \<and> everywhere P e)"
| "everywhere P v = P v"
  by pat_completeness auto
termination
  apply (relation "measure (\<lambda>(P, v). size v)")
  apply (auto simp: PropertyMap_index_def size_fmlookup size_list_member less_SucI
              simp del: size_fmap_def split: option.splits)
  done

text \<open>\<open>reaches_computed v\<close>: a computed property occurs in \<open>v\<close> on a path that passes
  through no output-valued entry of a property map (the entries that
  \<open>MarshalPropertiesWithUnknowns\<close> skips).\<close>

function (sequential) reaches_computed :: "PropertyValue \<Rightarrow> bool" where
  "reaches_computed (PComputed e) = True"
| "reaches_computed (POutput e) = reaches_computed e"
| "reaches_computed (PArray arr) = (\<exists>x\<in>set arr. reaches_computed x)"
| "reaches_computed (PObject obj) =
     (\<exists>k\<in>fset (fmdom obj). \<not> IsOutput (PropertyMap_index obj k)
                              \<and> reaches_computed (PropertyMap_index obj k))"
| "reaches_computed _ = False"
  by pat_completeness auto
termination
  apply (relation "measure size")
  apply (auto simp: PropertyMap_index_def size_fmlookup size_list_member less_SucI
              simp del: size_fmap_def split: option.splits)
  done

text \<open>\<open>URN_resolves ctx opts u\<close>: the inputs on which a resource value carrying \<open>u\<close> has
  an identifier to emit. \<open>RawURNs\<close> is set; or the context is not nil and its
  current-resources map holds a resource with a non-empty ID for \<open>u\<close>; or that map does not
  hold \<open>u\<close>, \<open>PermitOlds\<close> is set and the prior-deployment map holds a non-empty ID for
  \<open>u\<close>.\<close>

definition URN_resolves :: "Context option \<Rightarrow> MarshalOptions \<Rightarrow> URN \<Rightarrow> bool" where
  "URN_resolves ctx opts u =
     (RawURNs opts \<or>
      (case ctx of
         None \<Rightarrow> False
       | Some c \<Rightarrow>
           (case URNRes c u of
              Some res \<Rightarrow> ID res \<noteq> []
            | None \<Rightarrow>
                PermitOlds opts \<and>
                (case URNOldIDs c u of Some oldid \<Rightarrow> oldid \<noteq> [] | None \<Rightarrow> False))))"

text \<open>The contract of an accessor for one kind, in the spec's words: \<open>Is\<close> is the kind's
  predicate, \<open>Val\<close> its extractor and \<open>acc\<close> the accessor. A null-valued entry counts as
  absent.\<close>

definition OrErr_contract ::
  "(PropertyValue \<Rightarrow> bool) \<Rightarrow> (PropertyValue \<Rightarrow> 'a)
     \<Rightarrow> (PropertyMap \<Rightarrow> PropertyKey \<Rightarrow> bool \<Rightarrow> 'a option \<times> error option) \<Rightarrow> bool" where
  "OrErr_contract Is Val acc =
     (\<forall>m k req.
        (\<forall>v. fmlookup m k = Some v \<and> \<not> IsNull v \<and> Is v \<longrightarrow> acc m k req = (Some (Val v), None))
        \<and> ((fmlookup m k = None \<or> fmlookup m k = Some PNull) \<and> \<not> req \<longrightarrow>
              acc m k req = (None, None))
        \<and> ((fmlookup m k = None \<or> fmlookup m k = Some PNull) \<and> req \<longrightarrow>
              acc m k req = (None, Some (ReqError k)))
        \<and> (\<forall>v. fmlookup m k = Some v \<and> \<not> IsNull v \<and> \<not> Is v \<longrightarrow>
              (\<exists>e. acc m k req = (None, Some e) \<and> \<not> IsReqError (Some e))))"

text \<open>The keys of an optional unknown-key map.\<close>

definition unkset :: "string set option \<Rightarrow> string set" where
  "unkset unk = (case unk of None \<Rightarrow> {} | Some s \<Rightarrow> s)"

text \<open>The bodies of the four loops of rpc.go, with the recursive call as a parameter.\<close>

definition marshal_field_step ::
  "(PropertyValue \<Rightarrow> fault + (Value \<times> bool)) \<Rightarrow> PropertyMap \<Rightarrow> PropertyKey
     \<Rightarrow> fault + (Struct \<times> string set option) \<Rightarrow> fault + (Struct \<times> string set option)" where
  "marshal_field_step g props = (\<lambda>key acc.
        case acc of
          Inl f \<Rightarrow> Inl f
        | Inr (result, unk) \<Rightarrow>
            (let v = PropertyMap_index props key in
             if \<not> IsOutput v then
               (case g (PropertyMap_index props key) of
                  Inl f \<Rightarrow> Inl f
                | Inr (mv, known) \<Rightarrow>
                    Inr (fmupd key (Some mv) result,
                         if \<not> known
                         then Some (insert key (case unk of None \<Rightarrow> {} | Some s \<Rightarrow> s))
                         else unk))
             else Inr (result, unk)))"

definition marshal_elem_step ::
  "(PropertyValue \<Rightarrow> fault + (Value \<times> bool)) \<Rightarrow> PropertyValue
     \<Rightarrow> fault + (bool \<times> Value option list) \<Rightarrow> fault + (bool \<times> Value option list)" where
  "marshal_elem_step g = (\<lambda>elem acc.
              case acc of
                Inl f \<Rightarrow> Inl f
              | Inr (outcome, elems) \<Rightarrow>
                  (case g elem of
                     Inl f \<Rightarrow> Inl f
                   | Inr (elemv, known) \<Rightarrow> Inr (outcome \<and> known, elems @ [Some elemv])))"

definition unmarshal_field_step ::
  "(Value option \<Rightarrow> fault + PropertyValue) \<Rightarrow> Struct \<Rightarrow> string
     \<Rightarrow> fault + PropertyMap \<Rightarrow> fault + PropertyMap" where
  "unmarshal_field_step u flds = (\<lambda>k acc.
        case acc of
          Inl f \<Rightarrow> Inl f
        | Inr result \<Rightarrow>
            (case u (Fields_index flds k) of
               Inl f \<Rightarrow> Inl f
             | Inr pv \<Rightarrow> Inr (fmupd k pv result)))"

definition unmarshal_elem_step ::
  "(Value option \<Rightarrow> fault + PropertyValue) \<Rightarrow> Value option
     \<Rightarrow> fault + PropertyValue list \<Rightarrow> fault + PropertyValue list" where
  "unmarshal_elem_step u = (\<lambda>elem acc.
              case acc of
                Inl f \<Rightarrow> Inl f
              | Inr elems \<Rightarrow>
                  (case u elem of
                     Inl f \<Rightarrow> Inl f
                   | Inr pv \<Rightarrow> Inr (elems @ [pv])))"

section \<open>Resource discovery and replacement: properties\<close>

declare PropertyMap_AllResources.simps [simp del] PropertyMap_ReplaceResources.simps [simp del]

lemma set_StablePropertyKeys: "set (StablePropertyKeys m) = fset (fmdom m)"
  by (simp add: StablePropertyKeys_def)

lemma PropertyMap_index_Some: "fmlookup m k = Some v \<Longrightarrow> PropertyMap_index m k = v"
  by (simp add: PropertyMap_index_def)

lemma fold_fmupd_lookup:
  "fmlookup (fold (\<lambda>k result. fmupd k (g k) result) keys r0) k
     = (if k \<in> set keys then Some (g k) else fmlookup r0 k)"
  by (induction keys arbitrary: r0) auto

lemma PropertyMap_ReplaceResources_fmmap:
  "PropertyMap_ReplaceResources f m = fmmap (PropertyValue_ReplaceResources f) m"
proof (rule fmap_ext)
  fix k
  show "fmlookup (PropertyMap_ReplaceResources f m) k
          = fmlookup (fmmap (PropertyValue_ReplaceResources f) m) k"
  proof (cases "fmlookup m k")
    case None
    then have "k \<notin> fset (fmdom m)" by (simp add: fmdom_notI)
    with None show ?thesis
      by (simp add: PropertyMap_ReplaceResources.simps fold_fmupd_lookup set_StablePropertyKeys)
  next
    case (Some v)
    then have "k \<in> fset (fmdom m)" by (simp add: fmdomI)
    with Some show ?thesis
      by (simp add: PropertyMap_ReplaceResources.simps fold_fmupd_lookup set_StablePropertyKeys
            PropertyMap_index_Some)
  qed
qed

lemma fold_union: "fold (\<lambda>x acc. acc \<union> g x) xs A = A \<union> (\<Union>x\<in>set xs. g x)"
  by (induction xs arbitrary: A) auto

lemma PropertyMap_AllResources_Union:
  "PropertyMap_AllResources m = (\<Union>k\<in>fset (fmdom m). PropertyValue_AllResources (PropertyMap_index m k))"
  by (simp add: PropertyMap_AllResources.simps fold_union set_StablePropertyKeys)

lemma PropertyMap_AllResources_ran:
  "PropertyMap_AllResources m = (\<Union>v\<in>fmran' m. PropertyValue_AllResources v)"
proof -
  have "(\<lambda>k. PropertyMap_index m k) ` fset (fmdom m) = fmran' m"
  proof (intro set_eqI iffI)
    fix v assume "v \<in> (\<lambda>k. PropertyMap_index m k) ` fset (fmdom m)"
    then obtain k where k: "k |\<in>| fmdom m" and v: "v = PropertyMap_index m k" by auto
    from k obtain w where "fmlookup m k = Some w" by (auto dest: fmdomE)
    with v show "v \<in> fmran' m" by (auto simp: PropertyMap_index_def intro: fmran'I)
  next
    fix v assume "v \<in> fmran' m"
    then obtain k where "fmlookup m k = Some v" by (auto elim: fmran'E)
    then have "k |\<in>| fmdom m" "PropertyMap_index m k = v"
      by (auto simp: PropertyMap_index_def intro: fmdomI)
    then show "v \<in> (\<lambda>k. PropertyMap_index m k) ` fset (fmdom m)" by force
  qed
  then show ?thesis
    unfolding PropertyMap_AllResources_Union by (metis image_image SUP_image)
qed

lemma PropertyValue_AllResources_PArray:
  "PropertyValue_AllResources (PArray arr) = (\<Union>x\<in>set arr. PropertyValue_AllResources x)"
  by (simp add: fold_union)

declare PropertyValue_AllResources.simps(2) [simp del]

lemma AllResources_Replace:
  "PropertyValue_AllResources (PropertyValue_ReplaceResources f v) = f ` PropertyValue_AllResources v"
proof (induction v)
  case (PArray x)
  then show ?case by (auto simp: PropertyValue_AllResources_PArray)
next
  case (PObject x)
  then show ?case 
    by (auto simp: PropertyMap_AllResources_ran PropertyMap_ReplaceResources_fmmap)
qed simp_all

lemma ReplaceResources_other:
  "\<not> IsResource v \<Longrightarrow> \<not> IsArray v \<Longrightarrow> \<not> IsObject v
     \<Longrightarrow> PropertyValue_ReplaceResources f v = v"
  by (cases v) simp_all

text \<open>
  C9: for every updater \<open>f\<close>, \<open>ReplaceResources f\<close> returns a copy of the tree in which
  a resource value carrying \<open>u\<close> has become a resource value carrying \<open>f u\<close>; an array
  is rebuilt element by element and an object entry by entry (same keys, each value replaced);
  a value that is no resource, array or object passes through unchanged. So the URNs found by
  \<open>AllResources\<close> in the result are the images under \<open>f\<close> of those found in the input.
  The spec's example: with \<open>f\<close> mapping \<open>u1\<close> to \<open>u3\<close> and nothing else,
  \<open>{a: Resource u1, b: [Resource u2, {c: Resource u1}]}\<close> becomes
  \<open>{a: Resource u3, b: [Resource u2, {c: Resource u3}]}\<close>.
\<close>

theorem ReplaceResources_structural_copy:
  "PropertyValue_ReplaceResources f (PResource u) = PResource (f u)
   \<and> PropertyValue_ReplaceResources f (PArray arr)
       = PArray (map (PropertyValue_ReplaceResources f) arr)
   \<and> PropertyValue_ReplaceResources f (PObject obj)
       = PObject (PropertyMap_ReplaceResources f obj)
   \<and> fmdom (PropertyMap_ReplaceResources f m) = fmdom m
   \<and> fmlookup (PropertyMap_ReplaceResources f m) k
       = map_option (PropertyValue_ReplaceResources f) (fmlookup m k)
   \<and> (\<not> IsResource v \<and> \<not> IsArray v \<and> \<not> IsObject v
        \<longrightarrow> PropertyValue_ReplaceResources f v = v)
   \<and> PropertyValue_AllResources (PropertyValue_ReplaceResources f v)
       = f ` PropertyValue_AllResources v
   \<and> (u1 \<noteq> u2 \<longrightarrow>
        PropertyMap_ReplaceResources (\<lambda>x. if x = u1 then u3 else x)
          (fmupd ''a'' (PResource u1)
            (fmupd ''b'' (PArray [PResource u2, PObject (fmupd ''c'' (PResource u1) fmempty)])
              fmempty))
        = fmupd ''a'' (PResource u3)
            (fmupd ''b'' (PArray [PResource u2, PObject (fmupd ''c'' (PResource u3) fmempty)])
              fmempty))"
  by (simp add: PropertyMap_ReplaceResources_fmmap fmmap_fmupd ReplaceResources_other
        AllResources_Replace)

theorem ReplaceResources_structural_copy_witness:
  "\<not> IsResource (PComputed (PResource ''u1''))
   \<and> \<not> IsArray (PComputed (PResource ''u1''))
   \<and> \<not> IsObject (PComputed (PResource ''u1''))
   \<and> PropertyValue_ReplaceResources (\<lambda>x. if x = ''u1'' then ''u3'' else x)
         (PComputed (PResource ''u1'')) = PComputed (PResource ''u1'')
   \<and> ''u1'' \<noteq> ''u2''
   \<and> PropertyMap_ReplaceResources (\<lambda>x. if x = ''u1'' then ''u3'' else x)
         (fmupd ''a'' (PResource ''u1'')
           (fmupd ''b''
             (PArray [PResource ''u2'', PObject (fmupd ''c'' (PResource ''u1'') fmempty)])
             fmempty))
       = fmupd ''a'' (PResource ''u3'')
           (fmupd ''b''
             (PArray [PResource ''u2'', PObject (fmupd ''c'' (PResource ''u3'') fmempty)])
             fmempty)"
proof -
  have ne: "''u1'' \<noteq> ''u2''" by simp
  have leaf: "\<not> IsResource (PComputed (PResource ''u1''))
              \<and> \<not> IsArray (PComputed (PResource ''u1''))
              \<and> \<not> IsObject (PComputed (PResource ''u1''))" by simp
  note copy = ReplaceResources_structural_copy
    [where f = "\<lambda>x. if x = ''u1'' then ''u3'' else x" and v = "PComputed (PResource ''u1'')"
       and ?u1.0 = "''u1''" and ?u2.0 = "''u2''" and ?u3.0 = "''u3''"]
  from copy leaf have a: "PropertyValue_ReplaceResources (\<lambda>x. if x = ''u1'' then ''u3'' else x)
         (PComputed (PResource ''u1'')) = PComputed (PResource ''u1'')"
    by blast
  from copy ne have b: "PropertyMap_ReplaceResources (\<lambda>x. if x = ''u1'' then ''u3'' else x)
         (fmupd ''a'' (PResource ''u1'')
           (fmupd ''b''
             (PArray [PResource ''u2'', PObject (fmupd ''c'' (PResource ''u1'') fmempty)])
             fmempty))
       = fmupd ''a'' (PResource ''u3'')
           (fmupd ''b''
             (PArray [PResource ''u2'', PObject (fmupd ''c'' (PResource ''u3'') fmempty)])
             fmempty)"
    by blast
  from leaf a ne b show ?thesis by blast
qed

text \<open>
  C10: \<open>AllResources\<close> and \<open>ReplaceResources\<close> treat computed and output values as
  leaves. On a computed or an output value, whatever its eventual value \<open>e\<close> holds,
  \<open>AllResources\<close> returns the empty set and \<open>ReplaceResources\<close> returns the value as it
  is: a URN inside \<open>e\<close> is neither collected nor replaced.
\<close>

theorem AllResources_ReplaceResources_opaque_leaves:
  "PropertyValue_AllResources (PComputed e) = {}
   \<and> PropertyValue_AllResources (POutput e) = {}
   \<and> PropertyValue_ReplaceResources updater (PComputed e) = PComputed e
   \<and> PropertyValue_ReplaceResources updater (POutput e) = POutput e"
  by simp

section \<open>Marshaling: the loops\<close>

declare MarshalPropertiesWithUnknowns.simps [simp del]

lemma MarshalPropertiesWithUnknowns_fold:
  "MarshalPropertiesWithUnknowns ctx props opts =
     fold (marshal_field_step (\<lambda>v. MarshalPropertyValue ctx v opts) props)
       (StablePropertyKeys props) (Inr (fmempty, None))"
  by (simp only: MarshalPropertiesWithUnknowns.simps marshal_field_step_def)

lemma MarshalPropertyValue_PArray_fold:
  "MarshalPropertyValue ctx (PArray arr) opts =
     (case fold (marshal_elem_step (\<lambda>v. MarshalPropertyValue ctx v opts)) arr (Inr (True, [])) of
        Inl f \<Rightarrow> Inl f
      | Inr (outcome, elems) \<Rightarrow> Inr (Value_ListValue (Some elems), outcome))"
  by (simp only: MarshalPropertyValue.simps marshal_elem_step_def)

lemma field_step_Inl [simp]: "marshal_field_step g props key (Inl f) = Inl f"
  by (simp add: marshal_field_step_def)

lemma field_step_Inr:
  "marshal_field_step g props key (Inr (res, unk)) =
     (if IsOutput (PropertyMap_index props key) then Inr (res, unk)
      else case g (PropertyMap_index props key) of
             Inl f \<Rightarrow> Inl f
           | Inr (mv, known) \<Rightarrow>
               Inr (fmupd key (Some mv) res,
                    if known then unk else Some (insert key (unkset unk))))"
  by (simp add: marshal_field_step_def unkset_def Let_def split: sum.splits)

lemma fold_field_step_Inl [simp]: "fold (marshal_field_step g props) keys (Inl f) = Inl f"
  by (induction keys) simp_all

lemma elem_step_Inl [simp]: "marshal_elem_step g elem (Inl f) = Inl f"
  by (simp add: marshal_elem_step_def)

lemma fold_elem_step_Inl [simp]: "fold (marshal_elem_step g) arr (Inl f) = Inl f"
  by (induction arr) simp_all

lemma elem_step_Inr:
  "marshal_elem_step g elem (Inr (outcome, elems)) =
     (case g elem of Inl f \<Rightarrow> Inl f
      | Inr (elemv, known) \<Rightarrow> Inr (outcome \<and> known, elems @ [Some elemv]))"
  by (simp add: marshal_elem_step_def)

subsection \<open>The array loop of MarshalPropertyValue\<close>

lemma fold_elem_step_ok:
  "list_all2 (\<lambda>x r. g x = Inr r) arr rs \<Longrightarrow>
   fold (marshal_elem_step g) arr (Inr (outcome, elems))
     = Inr (outcome \<and> list_all snd rs, elems @ map (\<lambda>r. Some (fst r)) rs)"
proof (induction arr rs arbitrary: outcome elems rule: list_all2_induct)
  case Nil
  then show ?case by simp
next
  case (Cons x xs r rs)
  then show ?case by (cases r) (auto simp: elem_step_Inr)
qed

lemma fold_elem_step_Inr:
  "fold (marshal_elem_step g) arr (Inr (outcome, elems)) = Inr (outcome', elems') \<Longrightarrow>
   \<exists>rs. list_all2 (\<lambda>x r. g x = Inr r) arr rs
        \<and> outcome' = (outcome \<and> list_all snd rs)
        \<and> elems' = elems @ map (\<lambda>r. Some (fst r)) rs"
proof (induction arr arbitrary: outcome elems)
  case Nil
  then show ?case by simp
next
  case (Cons x xs)
  show ?case
  proof (cases "g x")
    case (Inl f)
    with Cons.prems show ?thesis by (simp add: elem_step_Inr)
  next
    case (Inr r)
    obtain w kn where r: "r = (w, kn)" by (cases r)
    from Cons.prems Inr r
    have "fold (marshal_elem_step g) xs (Inr (outcome \<and> kn, elems @ [Some w])) = Inr (outcome', elems')"
      by (simp add: elem_step_Inr)
    from Cons.IH[OF this] obtain rs where
      rs: "list_all2 (\<lambda>x r. g x = Inr r) xs rs"
          "outcome' = ((outcome \<and> kn) \<and> list_all snd rs)"
          "elems' = (elems @ [Some w]) @ map (\<lambda>r. Some (fst r)) rs" by blast
    show ?thesis
      by (rule exI[of _ "r # rs"]) (use rs Inr r in auto)
  qed
qed

subsection \<open>The field loop of MarshalPropertiesWithUnknowns\<close>

lemma unkset_step:
  "unkset (if kn then unk else Some (insert x (unkset unk)))
     = (if kn then unkset unk else insert x (unkset unk))"
  by (simp add: unkset_def)


lemma fold_field_step_untouched:
  "fold (marshal_field_step g props) keys (Inr (res, unk)) = Inr (res', unk') \<Longrightarrow>
   k \<notin> set keys \<or> IsOutput (PropertyMap_index props k) \<Longrightarrow>
   fmlookup res' k = fmlookup res k \<and> (k \<in> unkset unk' \<longleftrightarrow> k \<in> unkset unk)"
proof (induction keys arbitrary: res unk)
  case Nil
  then show ?case by simp
next
  case (Cons x xs)
  show ?case
  proof (cases "IsOutput (PropertyMap_index props x)")
    case True
    with Cons show ?thesis by (auto simp: field_step_Inr)
  next
    case False
    with Cons.prems obtain mv kn where g: "g (PropertyMap_index props x) = Inr (mv, kn)"
      by (cases "g (PropertyMap_index props x)") (auto simp: field_step_Inr)
    from False Cons.prems(2) have ne: "k \<noteq> x" by auto
    from Cons.prems(1) False g
    have "fold (marshal_field_step g props) xs
            (Inr (fmupd x (Some mv) res, if kn then unk else Some (insert x (unkset unk))))
          = Inr (res', unk')"
      by (simp add: field_step_Inr)
    from Cons.IH[OF this] Cons.prems(2) ne show ?thesis
      by (auto simp: unkset_step split: if_splits)
  qed
qed

lemma fold_field_step_unk_mono:
  "fold (marshal_field_step g props) keys (Inr (res, unk)) = Inr (res', unk') \<Longrightarrow>
   k \<in> unkset unk \<Longrightarrow> k \<in> unkset unk'"
proof (induction keys arbitrary: res unk)
  case Nil
  then show ?case by simp
next
  case (Cons x xs)
  show ?case
  proof (cases "IsOutput (PropertyMap_index props x)")
    case True
    with Cons show ?thesis by (auto simp: field_step_Inr)
  next
    case False
    with Cons.prems obtain mv kn where g: "g (PropertyMap_index props x) = Inr (mv, kn)"
      by (cases "g (PropertyMap_index props x)") (auto simp: field_step_Inr)
    from Cons.prems(1) False g
    have "fold (marshal_field_step g props) xs
            (Inr (fmupd x (Some mv) res, if kn then unk else Some (insert x (unkset unk))))
          = Inr (res', unk')"
      by (simp add: field_step_Inr)
    from Cons.IH[OF this] Cons.prems(2) show ?thesis
      by (auto simp: unkset_step split: if_splits)
  qed
qed

lemma fold_field_step_touched:
  "fold (marshal_field_step g props) keys (Inr (res, unk)) = Inr (res', unk') \<Longrightarrow>
   k \<in> set keys \<Longrightarrow> \<not> IsOutput (PropertyMap_index props k) \<Longrightarrow>
   \<exists>mv kn. g (PropertyMap_index props k) = Inr (mv, kn) \<and> fmlookup res' k = Some (Some mv)
         \<and> (k \<in> unkset unk' \<longleftrightarrow> \<not> kn \<or> k \<in> unkset unk)"
proof (induction keys arbitrary: res unk)
  case Nil
  then show ?case by simp
next
  case (Cons x xs)
  show ?case
  proof (cases "IsOutput (PropertyMap_index props x)")
    case True
    with Cons show ?thesis by (auto simp: field_step_Inr)
  next
    case False
    with Cons.prems obtain mv kn where g: "g (PropertyMap_index props x) = Inr (mv, kn)"
      by (cases "g (PropertyMap_index props x)") (auto simp: field_step_Inr)
    let ?res1 = "fmupd x (Some mv) res"
    let ?unk1 = "if kn then unk else Some (insert x (unkset unk))"
    from Cons.prems(1) False g
    have step: "fold (marshal_field_step g props) xs (Inr (?res1, ?unk1)) = Inr (res', unk')"
      by (simp add: field_step_Inr)
    show ?thesis
    proof (cases "k \<in> set xs")
      case True
      from Cons.IH[OF step True Cons.prems(3)] g show ?thesis
        by (cases "k = x") (auto simp: unkset_step split: if_splits)
    next
      case False
      with Cons.prems(2) have kx: "k = x" by simp
      from fold_field_step_untouched[OF step, of k] False
      have "fmlookup res' k = fmlookup ?res1 k" "k \<in> unkset unk' \<longleftrightarrow> k \<in> unkset ?unk1"
        by auto
      with kx g show ?thesis by (auto simp: unkset_step split: if_splits)
    qed
  qed
qed

lemma fold_field_step_None:
  "fold (marshal_field_step g props) keys (Inr (res, unk)) = Inr (res', unk') \<Longrightarrow>
   (unk' = None) \<longleftrightarrow>
     (unk = None \<and> (\<forall>k\<in>set keys. \<not> IsOutput (PropertyMap_index props k)
                       \<longrightarrow> (\<exists>mv. g (PropertyMap_index props k) = Inr (mv, True))))"
proof (induction keys arbitrary: res unk)
  case Nil
  then show ?case by simp
next
  case (Cons x xs)
  show ?case
  proof (cases "IsOutput (PropertyMap_index props x)")
    case True
    with Cons show ?thesis by (auto simp: field_step_Inr)
  next
    case False
    with Cons.prems obtain mv kn where g: "g (PropertyMap_index props x) = Inr (mv, kn)"
      by (cases "g (PropertyMap_index props x)") (auto simp: field_step_Inr)
    from Cons.prems(1) False g
    have "fold (marshal_field_step g props) xs
            (Inr (fmupd x (Some mv) res, if kn then unk else Some (insert x (unkset unk))))
          = Inr (res', unk')"
      by (simp add: field_step_Inr)
    from Cons.IH[OF this] False g show ?thesis
      by (cases kn) auto
  qed
qed

lemma fold_field_step_succeeds:
  "(\<forall>k\<in>set keys. \<not> IsOutput (PropertyMap_index props k)
        \<longrightarrow> (\<exists>r. g (PropertyMap_index props k) = Inr r)) \<Longrightarrow>
   \<exists>res' unk'. fold (marshal_field_step g props) keys (Inr (res, unk)) = Inr (res', unk')"
proof (induction keys arbitrary: res unk)
  case Nil
  then show ?case by simp
next
  case (Cons x xs)
  show ?case
  proof (cases "IsOutput (PropertyMap_index props x)")
    case True
    with Cons show ?thesis by (auto simp: field_step_Inr)
  next
    case False
    with Cons.prems obtain mv kn where g: "g (PropertyMap_index props x) = Inr (mv, kn)"
      by fastforce
    from Cons.prems have "\<forall>k\<in>set xs. \<not> IsOutput (PropertyMap_index props k)
        \<longrightarrow> (\<exists>r. g (PropertyMap_index props k) = Inr r)" by simp
    from Cons.IH[OF this] False g show ?thesis
      by (simp add: field_step_Inr)
  qed
qed

section \<open>Marshaling a property map\<close>

lemma unkset_None [simp]: "unkset None = {}"
  by (simp add: unkset_def)

lemma unkset_Some [simp]: "unkset (Some s) = s"
  by (simp add: unkset_def)

lemma unkset_nonempty_Some: "k \<in> unkset unk \<Longrightarrow> unk \<noteq> None"
  by (cases unk) simp_all

lemma MarshalPropertiesWithUnknowns_present:
  assumes "MarshalPropertiesWithUnknowns ctx props opts = Inr (s, unk)"
    and "fmlookup props k = Some v" and "\<not> IsOutput v"
  shows "\<exists>mv kn. MarshalPropertyValue ctx v opts = Inr (mv, kn)
           \<and> fmlookup s k = Some (Some mv) \<and> (k \<in> unkset unk \<longleftrightarrow> \<not> kn)"
proof -
  have k: "k \<in> set (StablePropertyKeys props)"
    using assms(2) by (simp add: set_StablePropertyKeys fmdomI)
  have v: "PropertyMap_index props k = v"
    using assms(2) by (rule PropertyMap_index_Some)
  from fold_field_step_touched[OF assms(1)[unfolded MarshalPropertiesWithUnknowns_fold] k]
    assms(3) v
  show ?thesis by simp
qed

lemma MarshalPropertiesWithUnknowns_skipped:
  assumes "MarshalPropertiesWithUnknowns ctx props opts = Inr (s, unk)"
    and "fmlookup props k = None \<or> IsOutput (PropertyMap_index props k)"
  shows "fmlookup s k = None \<and> k \<notin> unkset unk"
proof -
  have "k \<notin> set (StablePropertyKeys props) \<or> IsOutput (PropertyMap_index props k)"
    using assms(2) by (auto simp: set_StablePropertyKeys dest: fmdom_notI)
  from fold_field_step_untouched[OF assms(1)[unfolded MarshalPropertiesWithUnknowns_fold] this]
  show ?thesis by simp
qed

lemma MarshalPropertiesWithUnknowns_unk_None:
  assumes "MarshalPropertiesWithUnknowns ctx props opts = Inr (s, unk)"
  shows "(unk = None) \<longleftrightarrow>
           (\<forall>k v. fmlookup props k = Some v \<longrightarrow> \<not> IsOutput v
                   \<longrightarrow> (\<exists>mv. MarshalPropertyValue ctx v opts = Inr (mv, True)))"
proof -
  have "(unk = None) \<longleftrightarrow>
          (\<forall>k\<in>set (StablePropertyKeys props). \<not> IsOutput (PropertyMap_index props k)
               \<longrightarrow> (\<exists>mv. MarshalPropertyValue ctx (PropertyMap_index props k) opts = Inr (mv, True)))"
    using fold_field_step_None[OF assms[unfolded MarshalPropertiesWithUnknowns_fold]] by simp
  also have "\<dots> \<longleftrightarrow> (\<forall>k v. fmlookup props k = Some v \<longrightarrow> \<not> IsOutput v
                   \<longrightarrow> (\<exists>mv. MarshalPropertyValue ctx v opts = Inr (mv, True)))"
    by (auto simp: set_StablePropertyKeys PropertyMap_index_def fmdomI
             dest!: fmdomE split: option.splits) 
  finally show ?thesis .
qed

lemma MarshalPropertiesWithUnknowns_succeeds:
  assumes "\<forall>k v. fmlookup props k = Some v \<longrightarrow> \<not> IsOutput v
                   \<longrightarrow> (\<exists>r. MarshalPropertyValue ctx v opts = Inr r)"
  shows "\<exists>s unk. MarshalPropertiesWithUnknowns ctx props opts = Inr (s, unk)"
proof -
  have "\<forall>k\<in>set (StablePropertyKeys props). \<not> IsOutput (PropertyMap_index props k)
          \<longrightarrow> (\<exists>r. MarshalPropertyValue ctx (PropertyMap_index props k) opts = Inr r)"
    using assms
    by (auto simp: set_StablePropertyKeys PropertyMap_index_def dest!: fmdomE split: option.splits)
  from fold_field_step_succeeds[OF this] show ?thesis
    unfolding MarshalPropertiesWithUnknowns_fold by blast
qed

lemma MarshalPropertiesWithUnknowns_dom:
  assumes "MarshalPropertiesWithUnknowns ctx props opts = Inr (s, unk)"
  shows "fmlookup s k \<noteq> None \<longleftrightarrow> (\<exists>v. fmlookup props k = Some v \<and> \<not> IsOutput v)"
proof (cases "fmlookup props k")
  case None
  with MarshalPropertiesWithUnknowns_skipped[OF assms, of k] show ?thesis by simp
next
  case (Some v)
  show ?thesis
  proof (cases "IsOutput v")
    case True
    with Some MarshalPropertiesWithUnknowns_skipped[OF assms, of k] show ?thesis
      by (simp add: PropertyMap_index_def)
  next
    case False
    with Some MarshalPropertiesWithUnknowns_present[OF assms Some False] show ?thesis by auto
  qed
qed

subsection \<open>Arrays\<close>

lemma list_all2_ex:
  "(\<forall>x\<in>set xs. \<exists>r. P x r) \<Longrightarrow> \<exists>rs. list_all2 P xs rs"
proof (induction xs)
  case Nil
  then show ?case by simp
next
  case (Cons x xs)
  then obtain r rs where "P x r" "list_all2 P xs rs" by auto
  then have "list_all2 P (x # xs) (r # rs)" by simp
  then show ?case by blast
qed

lemma MarshalPropertyValue_PArray_Inr:
  assumes "MarshalPropertyValue ctx (PArray arr) opts = Inr (w, kn)"
  shows "\<exists>rs. list_all2 (\<lambda>x r. MarshalPropertyValue ctx x opts = Inr r) arr rs
           \<and> kn = list_all snd rs
           \<and> w = Value_ListValue (Some (map (\<lambda>r. Some (fst r)) rs))"
proof -
  from assms obtain outcome elems where
    f: "fold (marshal_elem_step (\<lambda>v. MarshalPropertyValue ctx v opts)) arr (Inr (True, []))
          = Inr (outcome, elems)"
    and w: "w = Value_ListValue (Some elems)" "kn = outcome"
    unfolding MarshalPropertyValue_PArray_fold by (auto split: sum.splits)
  from fold_elem_step_Inr[OF f] w show ?thesis by auto
qed

lemma MarshalPropertyValue_PArray_ok:
  assumes "list_all2 (\<lambda>x r. MarshalPropertyValue ctx x opts = Inr r) arr rs"
  shows "MarshalPropertyValue ctx (PArray arr) opts
           = Inr (Value_ListValue (Some (map (\<lambda>r. Some (fst r)) rs)), list_all snd rs)"
  unfolding MarshalPropertyValue_PArray_fold
  by (simp add: fold_elem_step_ok[OF assms])

lemma list_all2_memD:
  "list_all2 P xs ys \<Longrightarrow> x \<in> set xs \<Longrightarrow> \<exists>y. P x y"
  by (induction xs ys rule: list_all2_induct) auto

lemma list_all2_known:
  "list_all2 (\<lambda>x r. g x = Inr r) arr rs \<Longrightarrow>
   list_all snd rs \<longleftrightarrow> (\<forall>x\<in>set arr. \<exists>w. g x = Inr (w, True))"
  by (induction arr rs rule: list_all2_induct) auto

lemma MarshalPropertyValue_PArray_known:
  assumes "MarshalPropertyValue ctx (PArray arr) opts = Inr (w, kn)"
  shows "kn \<longleftrightarrow> (\<forall>x\<in>set arr. \<exists>w'. MarshalPropertyValue ctx x opts = Inr (w', True))"
proof -
  from MarshalPropertyValue_PArray_Inr[OF assms] obtain rs where
    rs: "list_all2 (\<lambda>x r. MarshalPropertyValue ctx x opts = Inr r) arr rs" "kn = list_all snd rs"
    by blast
  from list_all2_known[OF rs(1)] rs(2) show ?thesis by simp
qed

lemma MarshalPropertyValue_PArray_returns:
  "(\<exists>r. MarshalPropertyValue ctx (PArray arr) opts = Inr r)
     \<longleftrightarrow> (\<forall>x\<in>set arr. \<exists>r. MarshalPropertyValue ctx x opts = Inr r)"
proof
  assume "\<exists>r. MarshalPropertyValue ctx (PArray arr) opts = Inr r"
  then obtain w kn where "MarshalPropertyValue ctx (PArray arr) opts = Inr (w, kn)" by auto
  from MarshalPropertyValue_PArray_Inr[OF this] obtain rs where
    "list_all2 (\<lambda>x r. MarshalPropertyValue ctx x opts = Inr r) arr rs" by blast
  then show "\<forall>x\<in>set arr. \<exists>r. MarshalPropertyValue ctx x opts = Inr r"
    by (induction arr rs rule: list_all2_induct) auto
next
  assume "\<forall>x\<in>set arr. \<exists>r. MarshalPropertyValue ctx x opts = Inr r"
  from list_all2_ex[OF this] obtain rs where
    "list_all2 (\<lambda>x r. MarshalPropertyValue ctx x opts = Inr r) arr rs" by blast
  from MarshalPropertyValue_PArray_ok[OF this] show "\<exists>r. MarshalPropertyValue ctx (PArray arr) opts = Inr r"
    by blast
qed

declare MarshalPropertyValue.simps(5) [simp del]

subsection \<open>Known and unknown values\<close>

lemma reaches_computed_unknown:
  "reaches_computed v \<Longrightarrow> MarshalPropertyValue ctx v opts = Inr (w, kn) \<Longrightarrow> \<not> kn"
proof (induction v arbitrary: w kn)
  case (PArray arr)
  from PArray.prems(1) obtain x where x: "x \<in> set arr" "reaches_computed x" by auto
  show ?case
  proof
    assume kn
    with MarshalPropertyValue_PArray_known[OF PArray.prems(2)] x
    obtain w' where "MarshalPropertyValue ctx x opts = Inr (w', True)" by blast
    with PArray.IH[OF x(1) x(2)] show False by blast
  qed
next
  case (PObject obj)
  from PObject.prems(1) obtain k where
    k: "k |\<in>| fmdom obj" "\<not> IsOutput (PropertyMap_index obj k)"
       "reaches_computed (PropertyMap_index obj k)" by auto
  from k(1) obtain v where v: "fmlookup obj k = Some v" by (auto dest: fmdomE)
  then have iv: "PropertyMap_index obj k = v" by (rule PropertyMap_index_Some)
  from PObject.prems(2) obtain s unk where
    m: "MarshalPropertiesWithUnknowns ctx obj opts = Inr (s, unk)" and kn: "kn = (unk = None)"
    by (auto split: sum.splits)
  from MarshalPropertiesWithUnknowns_present[OF m v] k(2) iv obtain mv kn' where
    r: "MarshalPropertyValue ctx v opts = Inr (mv, kn')" "k \<in> unkset unk \<longleftrightarrow> \<not> kn'" by auto
  have "v \<in> fmran' obj" using v by (rule fmran'I)
  from PObject.IH[OF this _ r(1)] k(3) iv have "\<not> kn'" by simp
  with r(2) have "k \<in> unkset unk" by simp
  then have "unk \<noteq> None" by (rule unkset_nonempty_Some)
  with kn show ?case by simp
next
  case (PComputed e)
  from PComputed.prems(2) show ?case by (simp split: sum.splits prod.splits)
next
  case (POutput e)
  from POutput.prems(2) show ?case by (simp split: sum.splits prod.splits)
qed simp_all

lemma everywhere_PObject_lookup:
  assumes "everywhere P (PObject obj)" and "fmlookup obj k = Some v"
  shows "everywhere P v"
proof -
  have "k |\<in>| fmdom obj" using assms(2) by (rule fmdomI)
  with assms(1) have "everywhere P (PropertyMap_index obj k)" by simp
  with assms(2) show ?thesis by (simp add: PropertyMap_index_def)
qed

lemma everywhere_known:
  "everywhere (\<lambda>v. \<not> IsComputed v \<and> \<not> IsOutput v) v \<Longrightarrow>
   MarshalPropertyValue ctx v opts = Inr (w, kn) \<Longrightarrow> kn"
proof (induction v arbitrary: w kn)
  case (PArray arr)
  from MarshalPropertyValue_PArray_Inr[OF PArray.prems(2)] obtain rs where
    rs: "list_all2 (\<lambda>x r. MarshalPropertyValue ctx x opts = Inr r) arr rs" "kn = list_all snd rs"
    by blast
  have "\<forall>x\<in>set arr. \<exists>w. MarshalPropertyValue ctx x opts = Inr (w, True)"
  proof
    fix x assume x: "x \<in> set arr"
    from list_all2_memD[OF rs(1) x] obtain r where r: "MarshalPropertyValue ctx x opts = Inr r"
      by blast
    obtain w' kn' where "r = (w', kn')" by (cases r)
    with PArray.IH[OF x, of w' kn'] PArray.prems(1) x r
    show "\<exists>w. MarshalPropertyValue ctx x opts = Inr (w, True)" by auto
  qed
  with list_all2_known[OF rs(1)] rs(2) show ?case by simp
next
  case (PObject obj)
  from PObject.prems(2) obtain s unk where
    m: "MarshalPropertiesWithUnknowns ctx obj opts = Inr (s, unk)" and kn: "kn = (unk = None)"
    by (auto split: sum.splits)
  have "\<forall>k v. fmlookup obj k = Some v \<longrightarrow> \<not> IsOutput v
                   \<longrightarrow> (\<exists>mv. MarshalPropertyValue ctx v opts = Inr (mv, True))"
  proof (intro allI impI)
    fix k v assume v: "fmlookup obj k = Some v" and no: "\<not> IsOutput v"
    from MarshalPropertiesWithUnknowns_present[OF m v no] obtain mv kn' where
      r: "MarshalPropertyValue ctx v opts = Inr (mv, kn')" by blast
    have ran: "v \<in> fmran' obj" using v by (rule fmran'I)
    have "everywhere (\<lambda>v. \<not> IsComputed v \<and> \<not> IsOutput v) v"
      using PObject.prems(1) v by (rule everywhere_PObject_lookup)
    from PObject.IH[OF ran this r] r
    show "\<exists>mv. MarshalPropertyValue ctx v opts = Inr (mv, True)" by simp
  qed
  with MarshalPropertiesWithUnknowns_unk_None[OF m] kn show ?case by simp
next
  case (PResource u)
  from PResource.prems(2) show ?case
    by (simp split: if_splits option.splits sum.splits)
next
  case (PComputed e)
  then show ?case by simp
next
  case (POutput e)
  then show ?case by simp
qed simp_all

section \<open>When marshaling returns\<close>

lemma MarshalPropertyValue_returns_raw:
  "RawURNs opts \<Longrightarrow> \<exists>r. MarshalPropertyValue ctx v opts = Inr r"
proof (induction v)
  case (PArray arr)
  then have "\<forall>x\<in>set arr. \<exists>r. MarshalPropertyValue ctx x opts = Inr r" by blast
  then show ?case by (rule MarshalPropertyValue_PArray_returns[THEN iffD2])
next
  case (PObject obj)
  have "\<forall>k v. fmlookup obj k = Some v \<longrightarrow> \<not> IsOutput v
          \<longrightarrow> (\<exists>r. MarshalPropertyValue ctx v opts = Inr r)"
    using PObject by (auto intro: fmran'I)
  from MarshalPropertiesWithUnknowns_succeeds[OF this] show ?case by auto
next
  case (PComputed e)
  then obtain w kn where "MarshalPropertyValue ctx e opts = Inr (w, kn)" by fastforce
  then show ?case by auto
next
  case (POutput e)
  then obtain w kn where "MarshalPropertyValue ctx e opts = Inr (w, kn)" by fastforce
  then show ?case by auto
qed auto

lemma MarshalPropertyValue_returns_resolved:
  "everywhere (\<lambda>v. \<not> IsComputed v \<and> \<not> IsOutput v) v \<Longrightarrow>
   (\<forall>u\<in>PropertyValue_AllResources v. \<exists>w. MarshalPropertyValue ctx (PResource u) opts = Inr (w, True)) \<Longrightarrow>
   \<exists>r. MarshalPropertyValue ctx v opts = Inr r"
proof (induction v)
  case (PArray arr)
  have "\<forall>x\<in>set arr. \<exists>r. MarshalPropertyValue ctx x opts = Inr r"
  proof
    fix x assume x: "x \<in> set arr"
    have "everywhere (\<lambda>v. \<not> IsComputed v \<and> \<not> IsOutput v) x"
      using PArray.prems(1) x by simp
    moreover have "\<forall>u\<in>PropertyValue_AllResources x.
                     \<exists>w. MarshalPropertyValue ctx (PResource u) opts = Inr (w, True)"
      using PArray.prems(2) x by (auto simp: PropertyValue_AllResources_PArray)
    ultimately show "\<exists>r. MarshalPropertyValue ctx x opts = Inr r"
      using PArray.IH[OF x] by blast
  qed
  then show ?case by (rule MarshalPropertyValue_PArray_returns[THEN iffD2])
next
  case (PObject obj)
  have "\<forall>k v. fmlookup obj k = Some v \<longrightarrow> \<not> IsOutput v
          \<longrightarrow> (\<exists>r. MarshalPropertyValue ctx v opts = Inr r)"
  proof (intro allI impI)
    fix k v assume v: "fmlookup obj k = Some v"
    have ran: "v \<in> fmran' obj" using v by (rule fmran'I)
    have "everywhere (\<lambda>v. \<not> IsComputed v \<and> \<not> IsOutput v) v"
      using PObject.prems(1) v by (rule everywhere_PObject_lookup)
    moreover have "\<forall>u\<in>PropertyValue_AllResources v.
                     \<exists>w. MarshalPropertyValue ctx (PResource u) opts = Inr (w, True)"
      using PObject.prems(2) ran by (auto simp: PropertyMap_AllResources_ran)
    ultimately show "\<exists>r. MarshalPropertyValue ctx v opts = Inr r"
      using PObject.IH[OF ran] by blast
  qed
  from MarshalPropertiesWithUnknowns_succeeds[OF this] show ?case by auto
next
  case (PResource u)
  from PResource.prems(2) show ?case by auto
qed auto

lemma URN_resolves_iff:
  "URN_resolves ctx opts u
     \<longleftrightarrow> (\<exists>w. MarshalPropertyValue ctx (PResource u) opts = Inr (w, True))"
  by (auto simp: URN_resolves_def split: option.splits if_splits)

lemma URN_resolves_faults:
  "\<not> URN_resolves ctx opts u \<Longrightarrow> \<exists>f. MarshalPropertyValue ctx (PResource u) opts = Inl f"
  by (auto simp: URN_resolves_def split: option.splits if_splits)

lemma MarshalPropertyValue_returns:
  "everywhere (\<lambda>x. \<forall>u. x = PResource u \<longrightarrow> URN_resolves ctx opts u) v \<Longrightarrow>
   \<exists>r. MarshalPropertyValue ctx v opts = Inr r"
proof (induction v)
  case (PArray arr)
  then have "\<forall>x\<in>set arr. \<exists>r. MarshalPropertyValue ctx x opts = Inr r" by simp
  then show ?case by (rule MarshalPropertyValue_PArray_returns[THEN iffD2])
next
  case (PObject obj)
  have "\<forall>k v. fmlookup obj k = Some v \<longrightarrow> \<not> IsOutput v
          \<longrightarrow> (\<exists>r. MarshalPropertyValue ctx v opts = Inr r)"
  proof (intro allI impI)
    fix k v assume v: "fmlookup obj k = Some v"
    have ran: "v \<in> fmran' obj" using v by (rule fmran'I)
    have "everywhere (\<lambda>x. \<forall>u. x = PResource u \<longrightarrow> URN_resolves ctx opts u) v"
      using PObject.prems v by (rule everywhere_PObject_lookup)
    with PObject.IH[OF ran] show "\<exists>r. MarshalPropertyValue ctx v opts = Inr r" by blast
  qed
  from MarshalPropertiesWithUnknowns_succeeds[OF this] show ?case by auto
next
  case (PResource u)
  then have "URN_resolves ctx opts u" by simp
  then show ?case unfolding URN_resolves_iff by blast
next
  case (PComputed e)
  then obtain w kn where "MarshalPropertyValue ctx e opts = Inr (w, kn)" by fastforce
  then show ?case by auto
next
  case (POutput e)
  then obtain w kn where "MarshalPropertyValue ctx e opts = Inr (w, kn)" by fastforce
  then show ?case by auto
qed auto

lemma StablePropertyKeys_single: "StablePropertyKeys (fmupd k v fmempty) = [k]"
  by (simp add: StablePropertyKeys_def sorted_list_of_fset.rep_eq)

lemma StablePropertyKeys_two:
  "a < b \<Longrightarrow> StablePropertyKeys (fmupd b v (fmupd a w fmempty)) = [a, b]"
  by (auto simp: StablePropertyKeys_def sorted_list_of_fset.rep_eq)

section \<open>Unknown properties\<close>

lemma reaches_computed_key_unknown:
  assumes m: "MarshalPropertiesWithUnknowns ctx m opts = Inr (s, unk)"
    and "fmlookup m k = Some v \<and> \<not> IsOutput v \<and> reaches_computed v"
  shows "k \<in> unkset unk"
proof -
  from assms(2) have v: "fmlookup m k = Some v" and no: "\<not> IsOutput v"
    and rc: "reaches_computed v" by simp_all
  from MarshalPropertiesWithUnknowns_present[OF m v no] obtain mv kn where
    r: "MarshalPropertyValue ctx v opts = Inr (mv, kn)" "k \<in> unkset unk \<longleftrightarrow> \<not> kn" by blast
  from reaches_computed_unknown[OF rc r(1)] r(2) show ?thesis by simp
qed

text \<open>
  C1, as stated, fails in two ways. The map \<open>{k: Output(Computed(Null))}\<close> holds a computed
  value in the tree of the value at \<open>k\<close>, yet the entry is an output property, the loop of
  \<open>MarshalPropertiesWithUnknowns\<close> skips it ("always skip output properties"), and the
  unknown-key map stays nil. And on \<open>{a: Resource(u), k: Computed(Null)}\<close> with a context
  that does not know \<open>u\<close> the call faults and returns no unknown-key set at all.
\<close>

theorem computed_under_output_entry_not_unknown:
  "MarshalPropertiesWithUnknowns None (fmupd ''k'' (POutput (PComputed PNull)) fmempty)
     \<lparr>PermitOlds = False, RawURNs = False\<rparr> = Inr (fmempty, None)
   \<and> MarshalPropertiesWithUnknowns (Some \<lparr>URNRes = Map.empty, URNOldIDs = Map.empty\<rparr>)
       (fmupd ''k'' (PComputed PNull) (fmupd ''a'' (PResource ''u'') fmempty))
       \<lparr>PermitOlds = False, RawURNs = False\<rparr> = Inl (URNNotFound ''u'')"
proof -
  have lt: "''a'' < ''k''" by simp
  show ?thesis
    by (simp add: MarshalPropertiesWithUnknowns.simps StablePropertyKeys_single
          StablePropertyKeys_two[OF lt] PropertyMap_index_def)
qed

text \<open>
  C1, amended: let the value at \<open>k\<close> be no output property itself and hold a computed value
  on a path through no output-valued entry of a nested property map. If every resource value
  in the map resolves (\<open>URN_resolves\<close>: \<open>RawURNs\<close> is set, or the context holds a
  non-empty ID for its URN), \<open>MarshalPropertiesWithUnknowns\<close> returns, and the unknown-key
  set it returns contains \<open>k\<close>; in particular whenever \<open>RawURNs\<close> is set. And whenever the
  call returns at all, \<open>k\<close> is in the unknown-key set.
\<close>

theorem computed_marks_key_unknown:
  assumes "fmlookup m k = Some v" and "\<not> IsOutput v" and "reaches_computed v"
  shows "(everywhere (\<lambda>x. \<forall>u. x = PResource u \<longrightarrow> URN_resolves ctx opts u) (PObject m) \<longrightarrow>
            (\<exists>s U. MarshalPropertiesWithUnknowns ctx m opts = Inr (s, Some U) \<and> k \<in> U))
         \<and> (RawURNs opts \<longrightarrow>
              (\<exists>s U. MarshalPropertiesWithUnknowns ctx m opts = Inr (s, Some U) \<and> k \<in> U))
         \<and> (\<forall>s unk. MarshalPropertiesWithUnknowns ctx m opts = Inr (s, unk) \<longrightarrow> k \<in> unkset unk)"
proof -
  have a: "k \<in> unkset unk" if m: "MarshalPropertiesWithUnknowns ctx m opts = Inr (s, unk)" for s unk
    using reaches_computed_key_unknown[OF m] assms by blast
  have ret: "\<exists>s U. MarshalPropertiesWithUnknowns ctx m opts = Inr (s, Some U) \<and> k \<in> U"
    if r: "\<exists>r. MarshalPropertyValue ctx (PObject m) opts = Inr r"
  proof -
    from r obtain s unk where
      m: "MarshalPropertiesWithUnknowns ctx m opts = Inr (s, unk)"
      by (auto split: sum.splits)
    from a[OF m] have k: "k \<in> unkset unk" .
    then obtain U where "unk = Some U" by (cases unk) auto
    with m k show ?thesis by auto
  qed
  have b: "\<exists>s U. MarshalPropertiesWithUnknowns ctx m opts = Inr (s, Some U) \<and> k \<in> U"
    if e: "everywhere (\<lambda>x. \<forall>u. x = PResource u \<longrightarrow> URN_resolves ctx opts u) (PObject m)"
    using ret[OF MarshalPropertyValue_returns[OF e]] .
  have c: "\<exists>s U. MarshalPropertiesWithUnknowns ctx m opts = Inr (s, Some U) \<and> k \<in> U"
    if raw: "RawURNs opts"
    using ret[OF MarshalPropertyValue_returns_raw[OF raw]] .
  from a b c show ?thesis by blast
qed

theorem computed_marks_key_unknown_witness:
  "fmlookup
     (fmupd ''r'' (PResource ''u'')
       (fmupd ''k'' (PArray [PObject (fmupd ''j'' (PComputed (PString ''x'')) fmempty)]) fmempty))
     ''k''
     = Some (PArray [PObject (fmupd ''j'' (PComputed (PString ''x'')) fmempty)])
   \<and> \<not> IsOutput (PArray [PObject (fmupd ''j'' (PComputed (PString ''x'')) fmempty)])
   \<and> reaches_computed (PArray [PObject (fmupd ''j'' (PComputed (PString ''x'')) fmempty)])
   \<and> URN_resolves (Some \<lparr>URNRes = [''u'' \<mapsto> Resource ''i-123''], URNOldIDs = Map.empty\<rparr>)
        \<lparr>PermitOlds = False, RawURNs = False\<rparr> ''u''
   \<and> everywhere
        (\<lambda>x. \<forall>u. x = PResource u \<longrightarrow>
                URN_resolves (Some \<lparr>URNRes = [''u'' \<mapsto> Resource ''i-123''], URNOldIDs = Map.empty\<rparr>)
                  \<lparr>PermitOlds = False, RawURNs = False\<rparr> u)
        (PObject
          (fmupd ''r'' (PResource ''u'')
            (fmupd ''k'' (PArray [PObject (fmupd ''j'' (PComputed (PString ''x'')) fmempty)])
              fmempty)))
   \<and> (\<exists>s U. MarshalPropertiesWithUnknowns
                (Some \<lparr>URNRes = [''u'' \<mapsto> Resource ''i-123''], URNOldIDs = Map.empty\<rparr>)
                (fmupd ''r'' (PResource ''u'')
                  (fmupd ''k'' (PArray [PObject (fmupd ''j'' (PComputed (PString ''x'')) fmempty)])
                    fmempty))
                \<lparr>PermitOlds = False, RawURNs = False\<rparr> = Inr (s, Some U)
             \<and> ''k'' \<in> U)
   \<and> MarshalPropertiesWithUnknowns None (fmupd ''k'' (PComputed PNull) fmempty)
        \<lparr>PermitOlds = False, RawURNs = False\<rparr>
       = Inr (fmupd ''k'' (Some Value_NullValue) fmempty, Some {''k''})"
proof -
  let ?v = "PArray [PObject (fmupd ''j'' (PComputed (PString ''x'')) fmempty)]"
  let ?m = "fmupd ''r'' (PResource ''u'') (fmupd ''k'' ?v fmempty)"
  let ?c = "Some \<lparr>URNRes = [''u'' \<mapsto> Resource ''i-123''], URNOldIDs = Map.empty\<rparr>"
  let ?o = "\<lparr>PermitOlds = False, RawURNs = False\<rparr>"
  have h1: "fmlookup ?m ''k'' = Some ?v" by simp
  have h2: "\<not> IsOutput ?v" by simp
  have h3: "reaches_computed ?v" by (simp add: PropertyMap_index_def)
  have h4: "URN_resolves ?c ?o ''u''" by (simp add: URN_resolves_def)
  have h5: "everywhere (\<lambda>x. \<forall>u. x = PResource u \<longrightarrow> URN_resolves ?c ?o u) (PObject ?m)"
    using h4 by (simp add: PropertyMap_index_def)
  from computed_marks_key_unknown[OF h1 h2 h3, of ?c ?o] h5
  have c1: "\<exists>s U. MarshalPropertiesWithUnknowns ?c ?m ?o = Inr (s, Some U) \<and> ''k'' \<in> U"
    by blast
  have g1: "fmlookup (fmupd ''k'' (PComputed PNull) fmempty) ''k'' = Some (PComputed PNull)"
    by simp
  have g5: "everywhere (\<lambda>x. \<forall>u. x = PResource u \<longrightarrow> URN_resolves None ?o u)
              (PObject (fmupd ''k'' (PComputed PNull) fmempty))"
    by (simp add: PropertyMap_index_def)
  from computed_marks_key_unknown[OF g1, of None ?o] g5
  obtain s U where
    r: "MarshalPropertiesWithUnknowns None (fmupd ''k'' (PComputed PNull) fmempty) ?o
          = Inr (s, Some U)" "''k'' \<in> U"
    by auto
  have ev: "MarshalPropertiesWithUnknowns None (fmupd ''k'' (PComputed PNull) fmempty) ?o
              = Inr (fmupd ''k'' (Some Value_NullValue) fmempty, Some {''k''})"
    by (simp add: MarshalPropertiesWithUnknowns.simps StablePropertyKeys_single
          PropertyMap_index_def)
  from h1 h2 h3 h4 h5 c1 ev show ?thesis by blast
qed

section \<open>Output properties at the top level of a map\<close>

lemma sorted_list_of_fset_remove:
  "sorted_list_of_fset (A |-| {|x|}) = remove1 x (sorted_list_of_fset A)"
  by (simp add: sorted_list_of_fset.rep_eq sorted_list_of_set_remove)

lemma StablePropertyKeys_fmdrop:
  "StablePropertyKeys (fmdrop k m) = remove1 k (StablePropertyKeys m)"
  by (simp add: StablePropertyKeys_def sorted_list_of_fset_remove)

lemma distinct_StablePropertyKeys: "distinct (StablePropertyKeys m)"
  by (simp add: StablePropertyKeys_def sorted_list_of_fset.rep_eq)

lemma fold_remove1_id:
  "(\<And>acc. f x acc = acc) \<Longrightarrow> fold f (remove1 x xs) acc = fold f xs acc"
  by (induction xs arbitrary: acc) auto

lemma field_step_output:
  "IsOutput (PropertyMap_index props key) \<Longrightarrow> marshal_field_step g props key acc = acc"
  by (cases acc) (auto simp: field_step_Inr)

lemma field_step_fmdrop:
  assumes "key \<noteq> k"
  shows "marshal_field_step g (fmdrop k props) key = marshal_field_step g props key"
proof
  fix acc
  have i: "PropertyMap_index (fmdrop k props) key = PropertyMap_index props key"
    using assms by (simp add: PropertyMap_index_def)
  show "marshal_field_step g (fmdrop k props) key acc = marshal_field_step g props key acc"
  proof (cases acc)
    case (Inl f)
    then show ?thesis by simp
  next
    case (Inr r)
    obtain res unk where "r = (res, unk)" by (cases r)
    with Inr i show ?thesis by (simp add: field_step_Inr)
  qed
qed

lemma MarshalPropertiesWithUnknowns_fmdrop_output:
  assumes "fmlookup m k = Some (POutput e)"
  shows "MarshalPropertiesWithUnknowns ctx m opts = MarshalPropertiesWithUnknowns ctx (fmdrop k m) opts"
proof -
  let ?g = "\<lambda>v. MarshalPropertyValue ctx v opts"
  have out: "IsOutput (PropertyMap_index m k)"
    using assms by (simp add: PropertyMap_index_def)
  have "fold (marshal_field_step ?g (fmdrop k m)) (remove1 k (StablePropertyKeys m)) (Inr (fmempty, None))
          = fold (marshal_field_step ?g m) (remove1 k (StablePropertyKeys m)) (Inr (fmempty, None))"
  proof (rule fold_cong)
    fix key assume "key \<in> set (remove1 k (StablePropertyKeys m))"
    then have "key \<noteq> k" using distinct_StablePropertyKeys[of m] by auto
    then show "marshal_field_step ?g (fmdrop k m) key = marshal_field_step ?g m key"
      by (rule field_step_fmdrop)
  qed simp_all
  also have "\<dots> = fold (marshal_field_step ?g m) (StablePropertyKeys m) (Inr (fmempty, None))"
    by (rule fold_remove1_id) (rule field_step_output[OF out])
  finally show ?thesis
    by (simp add: MarshalPropertiesWithUnknowns_fold StablePropertyKeys_fmdrop)
qed

text \<open>
  C4: an entry of the map whose value is an output property is skipped by
  \<open>MarshalPropertiesWithUnknowns\<close>. The call gives what it gives on the map without the entry
  (the same wire struct and unknown keys, or the same fault); and when it returns, the wire
  struct has no field at the key and the unknown-key set does not hold the key.
\<close>

theorem top_level_output_skipped:
  assumes "fmlookup m k = Some (POutput e)"
  shows "MarshalPropertiesWithUnknowns ctx m opts
           = MarshalPropertiesWithUnknowns ctx (fmdrop k m) opts
         \<and> (\<forall>s unk. MarshalPropertiesWithUnknowns ctx m opts = Inr (s, unk)
               \<longrightarrow> fmlookup s k = None \<and> k \<notin> unkset unk)"
proof -
  have "IsOutput (PropertyMap_index m k)"
    using assms by (simp add: PropertyMap_index_def)
  then show ?thesis
    using MarshalPropertiesWithUnknowns_fmdrop_output[OF assms]
      MarshalPropertiesWithUnknowns_skipped[of ctx m opts _ _ k]
    by blast
qed

theorem top_level_output_skipped_witness:
  "fmlookup (fmupd ''o'' (POutput (PString ''x'')) (fmupd ''a'' (PBool True) fmempty)) ''o''
     = Some (POutput (PString ''x''))
   \<and> MarshalPropertiesWithUnknowns None
        (fmupd ''o'' (POutput (PString ''x'')) (fmupd ''a'' (PBool True) fmempty))
        \<lparr>PermitOlds = False, RawURNs = False\<rparr>
       = Inr (fmupd ''a'' (Some (Value_BoolValue True)) fmempty, None)
   \<and> fmlookup (fmupd ''a'' (Some (Value_BoolValue True)) fmempty) ''o'' = None
   \<and> ''o'' \<notin> unkset None"
proof -
  let ?m = "fmupd ''o'' (POutput (PString ''x'')) (fmupd ''a'' (PBool True) fmempty)"
  let ?o = "\<lparr>PermitOlds = False, RawURNs = False\<rparr>"
  have h: "fmlookup ?m ''o'' = Some (POutput (PString ''x''))" by simp
  have lt: "''a'' < ''o''" by simp
  have ev: "MarshalPropertiesWithUnknowns None ?m ?o
              = Inr (fmupd ''a'' (Some (Value_BoolValue True)) fmempty, None)"
    by (simp add: MarshalPropertiesWithUnknowns.simps StablePropertyKeys_two[OF lt]
          PropertyMap_index_def)
  from top_level_output_skipped[OF h, of None ?o] ev
  have "fmlookup (fmupd ''a'' (Some (Value_BoolValue True)) fmempty) ''o'' = None
        \<and> ''o'' \<notin> unkset None" by blast
  with h ev show ?thesis by blast
qed

section \<open>Final marshaling\<close>

lemma MarshalPropertiesWithUnknowns_fmdom:
  assumes "MarshalPropertiesWithUnknowns ctx m opts = Inr (s, unk)"
    and "\<forall>k v. fmlookup m k = Some v \<longrightarrow> \<not> IsOutput v"
  shows "fmdom s = fmdom m"
proof (rule fset_eqI)
  fix k
  have "fmlookup s k \<noteq> None \<longleftrightarrow> fmlookup m k \<noteq> None"
    using MarshalPropertiesWithUnknowns_dom[OF assms(1), of k] assms(2) by auto
  then show "k |\<in>| fmdom s \<longleftrightarrow> k |\<in>| fmdom m"
    by (metis fmdom_notD fmdom_notI)
qed

text \<open>
  C5, as stated, fails twice. A map with no computed and no output value anywhere but with a
  resource whose URN the context does not know does not succeed: \<open>MarshalPropertyValue\<close>
  faults ("Expected resource URN to exist at marshal time"). And a map whose only computed
  value lies inside an output entry's eventual value succeeds with an empty struct, since the
  entry is skipped.
\<close>

theorem MarshalProperties_unresolved_resource_or_skipped_computed:
  "MarshalProperties (Some \<lparr>URNRes = Map.empty, URNOldIDs = Map.empty\<rparr>)
     (fmupd ''x'' (PResource ''u'') fmempty) \<lparr>PermitOlds = False, RawURNs = False\<rparr>
     = Inl (URNNotFound ''u'')
   \<and> MarshalProperties None (fmupd ''k'' (POutput (PComputed PNull)) fmempty)
       \<lparr>PermitOlds = False, RawURNs = False\<rparr> = Inr fmempty"
  by (simp add: MarshalProperties_def MarshalPropertiesWithUnknowns.simps
        StablePropertyKeys_single PropertyMap_index_def)

text \<open>
  C5, amended. If the value at some key is not an output property and a computed value occurs
  in it on a path through no output-valued map entry, \<open>MarshalProperties\<close> ends in a fault:
  the final-marshal assertion whenever the marshaling itself returns, a resource-resolution
  fault otherwise. If the map holds no computed and no output value anywhere and every URN in
  it resolves (\<open>MarshalPropertyValue\<close> returns on the resource value), \<open>MarshalProperties\<close>
  returns a wire struct with exactly the keys of the map.
\<close>

theorem MarshalProperties_final:
  "(fmlookup m k = Some v \<and> \<not> IsOutput v \<and> reaches_computed v \<longrightarrow>
      (\<exists>f. MarshalProperties ctx m opts = Inl f)
      \<and> (\<forall>s unk. MarshalPropertiesWithUnknowns ctx m opts = Inr (s, unk)
            \<longrightarrow> MarshalProperties ctx m opts = Inl UnexpectedUnknowns))
   \<and> (everywhere (\<lambda>v. \<not> IsComputed v \<and> \<not> IsOutput v) (PObject m)
       \<and> (\<forall>u\<in>PropertyMap_AllResources m.
             \<exists>w. MarshalPropertyValue ctx (PResource u) opts = Inr (w, True)) \<longrightarrow>
      (\<exists>s. MarshalProperties ctx m opts = Inr s \<and> fmdom s = fmdom m))"
proof (intro conjI impI)
  assume a: "fmlookup m k = Some v \<and> \<not> IsOutput v \<and> reaches_computed v"
  have u: "MarshalProperties ctx m opts = Inl UnexpectedUnknowns"
    if m: "MarshalPropertiesWithUnknowns ctx m opts = Inr (s, unk)" for s unk
  proof -
    from reaches_computed_key_unknown[OF m] a have "k \<in> unkset unk" by blast
    then have "unk \<noteq> None" by (rule unkset_nonempty_Some)
    with m show ?thesis by (simp add: MarshalProperties_def)
  qed
  then show "\<forall>s unk. MarshalPropertiesWithUnknowns ctx m opts = Inr (s, unk)
            \<longrightarrow> MarshalProperties ctx m opts = Inl UnexpectedUnknowns" by blast
  show "\<exists>f. MarshalProperties ctx m opts = Inl f"
  proof (cases "MarshalPropertiesWithUnknowns ctx m opts")
    case (Inl f)
    then show ?thesis by (simp add: MarshalProperties_def)
  next
    case (Inr r)
    obtain s unk where "r = (s, unk)" by (cases r)
    with Inr u show ?thesis by blast
  qed
next
  assume b: "everywhere (\<lambda>v. \<not> IsComputed v \<and> \<not> IsOutput v) (PObject m)
       \<and> (\<forall>u\<in>PropertyMap_AllResources m.
             \<exists>w. MarshalPropertyValue ctx (PResource u) opts = Inr (w, True))"
  then have ev: "everywhere (\<lambda>v. \<not> IsComputed v \<and> \<not> IsOutput v) (PObject m)"
    and res: "\<forall>u\<in>PropertyValue_AllResources (PObject m).
             \<exists>w. MarshalPropertyValue ctx (PResource u) opts = Inr (w, True)"
    by simp_all
  from MarshalPropertyValue_returns_resolved[OF ev res] obtain w kn where
    r: "MarshalPropertyValue ctx (PObject m) opts = Inr (w, kn)" by auto
  from everywhere_known[OF ev r] have kn by simp
  with r obtain s where s: "MarshalPropertiesWithUnknowns ctx m opts = Inr (s, None)"
    by (auto split: sum.splits)
  have no: "\<forall>k v. fmlookup m k = Some v \<longrightarrow> \<not> IsOutput v"
  proof (intro allI impI)
    fix k v assume "fmlookup m k = Some v"
    from everywhere_PObject_lookup[OF ev this] show "\<not> IsOutput v" by (cases v) simp_all
  qed
  from MarshalPropertiesWithUnknowns_fmdom[OF s no] s
  show "\<exists>s. MarshalProperties ctx m opts = Inr s \<and> fmdom s = fmdom m"
    by (simp add: MarshalProperties_def)
qed

theorem MarshalProperties_final_witness:
  "fmlookup (fmupd ''k'' (PArray [PComputed (PString ''x'')]) fmempty) ''k''
     = Some (PArray [PComputed (PString ''x'')])
   \<and> \<not> IsOutput (PArray [PComputed (PString ''x'')])
   \<and> reaches_computed (PArray [PComputed (PString ''x'')])
   \<and> MarshalProperties None (fmupd ''k'' (PArray [PComputed (PString ''x'')]) fmempty)
        \<lparr>PermitOlds = False, RawURNs = False\<rparr> = Inl UnexpectedUnknowns
   \<and> everywhere (\<lambda>v. \<not> IsComputed v \<and> \<not> IsOutput v)
        (PObject (fmupd ''x'' (PResource ''u'') fmempty))
   \<and> PropertyMap_AllResources (fmupd ''x'' (PResource ''u'') fmempty) = {''u''}
   \<and> MarshalPropertyValue
        (Some \<lparr>URNRes = [''u'' \<mapsto> Resource ''i-123''], URNOldIDs = Map.empty\<rparr>)
        (PResource ''u'') \<lparr>PermitOlds = False, RawURNs = False\<rparr>
       = Inr (Value_StringValue ''i-123'', True)
   \<and> (\<exists>s. MarshalProperties
              (Some \<lparr>URNRes = [''u'' \<mapsto> Resource ''i-123''], URNOldIDs = Map.empty\<rparr>)
              (fmupd ''x'' (PResource ''u'') fmempty)
              \<lparr>PermitOlds = False, RawURNs = False\<rparr> = Inr s
            \<and> fmdom s = fmdom (fmupd ''x'' (PResource ''u'') fmempty))"
proof -
  let ?v = "PArray [PComputed (PString ''x'')]"
  let ?m1 = "fmupd ''k'' ?v fmempty"
  let ?m2 = "fmupd ''x'' (PResource ''u'') fmempty"
  let ?c = "Some \<lparr>URNRes = [''u'' \<mapsto> Resource ''i-123''], URNOldIDs = Map.empty\<rparr>"
  let ?o = "\<lparr>PermitOlds = False, RawURNs = False\<rparr>"
  have h1: "fmlookup ?m1 ''k'' = Some ?v \<and> \<not> IsOutput ?v \<and> reaches_computed ?v"
    by simp
  have ev1: "MarshalPropertiesWithUnknowns None ?m1 ?o
               = Inr (fmupd ''k'' (Some (Value_ListValue (Some [Some (Value_StringValue ''x'')])))
                        fmempty, Some {''k''})"
    by (simp add: MarshalPropertiesWithUnknowns.simps StablePropertyKeys_single
          PropertyMap_index_def MarshalPropertyValue.simps(5))
  from MarshalProperties_final[of ?m1 "''k''" ?v None ?o] h1 ev1
  have c1: "MarshalProperties None ?m1 ?o = Inl UnexpectedUnknowns" by blast
  have h2: "everywhere (\<lambda>v. \<not> IsComputed v \<and> \<not> IsOutput v) (PObject ?m2)"
    by (simp add: PropertyMap_index_def)
  have h3: "PropertyMap_AllResources ?m2 = {''u''}"
    by (simp add: PropertyMap_AllResources_Union PropertyMap_index_def)
  have h4: "MarshalPropertyValue ?c (PResource ''u'') ?o = Inr (Value_StringValue ''i-123'', True)"
    by simp
  from h3 h4 have h5: "\<forall>u\<in>PropertyMap_AllResources ?m2.
             \<exists>w. MarshalPropertyValue ?c (PResource u) ?o = Inr (w, True)" by simp
  from MarshalProperties_final[of ?m2 "''x''" PNull ?c ?o] h2 h5
  have c2: "\<exists>s. MarshalProperties ?c ?m2 ?o = Inr s \<and> fmdom s = fmdom ?m2" by blast
  from h1 c1 h2 h3 h4 c2 show ?thesis by blast
qed

section \<open>Resource values\<close>

text \<open>
  C2: a resource value carrying URN \<open>u\<close> is marshaled as a wire string. With
  \<open>RawURNs\<close> set the string is \<open>u\<close> itself, whatever the context (nil included).
  Otherwise a nil context is a fault; a URN in the current-resources map resolves to that
  resource's ID; failing that, with \<open>PermitOlds\<close> set, a URN in the prior-deployment map
  resolves to the old ID; failing that the call faults ("expected to exist"); an empty ID
  is a fault as well. Whenever the call returns, the value is reported known.
\<close>

theorem MarshalPropertyValue_resource:
  "(RawURNs opts \<longrightarrow>
      MarshalPropertyValue ctx (PResource u) opts = Inr (Value_StringValue u, True))
   \<and> (\<not> RawURNs opts \<longrightarrow>
        MarshalPropertyValue None (PResource u) opts = Inl NilContext)
   \<and> (\<not> RawURNs opts \<and> URNRes c u = Some res \<longrightarrow>
        MarshalPropertyValue (Some c) (PResource u) opts
          = (if ID res = [] then Inl (EmptyID u) else Inr (Value_StringValue (ID res), True)))
   \<and> (\<not> RawURNs opts \<and> URNRes c u = None \<and> PermitOlds opts \<and> URNOldIDs c u = Some oldid \<longrightarrow>
        MarshalPropertyValue (Some c) (PResource u) opts
          = (if oldid = [] then Inl (EmptyID u) else Inr (Value_StringValue oldid, True)))
   \<and> (\<not> RawURNs opts \<and> URNRes c u = None \<and> (\<not> PermitOlds opts \<or> URNOldIDs c u = None) \<longrightarrow>
        MarshalPropertyValue (Some c) (PResource u) opts = Inl (URNNotFound u))
   \<and> (\<forall>w known. MarshalPropertyValue ctx (PResource u) opts = Inr (w, known) \<longrightarrow> known)"
  by (auto split: option.splits if_splits sum.splits)

theorem MarshalPropertyValue_resource_witness:
  "URNRes \<lparr>URNRes = [''u'' \<mapsto> Resource ''i-123''], URNOldIDs = Map.empty\<rparr> ''u''
     = Some (Resource ''i-123'')
   \<and> MarshalPropertyValue
        (Some \<lparr>URNRes = [''u'' \<mapsto> Resource ''i-123''], URNOldIDs = Map.empty\<rparr>)
        (PResource ''u'') \<lparr>PermitOlds = False, RawURNs = False\<rparr>
       = Inr (Value_StringValue ''i-123'', True)
   \<and> MarshalPropertyValue None (PResource ''u'') \<lparr>PermitOlds = False, RawURNs = True\<rparr>
       = Inr (Value_StringValue ''u'', True)
   \<and> MarshalPropertyValue None (PResource ''u'') \<lparr>PermitOlds = False, RawURNs = False\<rparr>
       = Inl NilContext
   \<and> MarshalPropertyValue
        (Some \<lparr>URNRes = Map.empty, URNOldIDs = [''u'' \<mapsto> ''i-old'']\<rparr>)
        (PResource ''u'') \<lparr>PermitOlds = True, RawURNs = False\<rparr>
       = Inr (Value_StringValue ''i-old'', True)
   \<and> MarshalPropertyValue
        (Some \<lparr>URNRes = Map.empty, URNOldIDs = [''u'' \<mapsto> ''i-old'']\<rparr>)
        (PResource ''u'') \<lparr>PermitOlds = False, RawURNs = False\<rparr>
       = Inl (URNNotFound ''u'')"
proof -
  let ?c1 = "\<lparr>URNRes = [''u'' \<mapsto> Resource ''i-123''], URNOldIDs = Map.empty\<rparr>"
  let ?c2 = "\<lparr>URNRes = Map.empty, URNOldIDs = [''u'' \<mapsto> ''i-old'']\<rparr>"
  let ?o = "\<lparr>PermitOlds = False, RawURNs = False\<rparr>"
  let ?raw = "\<lparr>PermitOlds = False, RawURNs = True\<rparr>"
  let ?olds = "\<lparr>PermitOlds = True, RawURNs = False\<rparr>"
  have a: "URNRes ?c1 ''u'' = Some (Resource ''i-123'')" by simp
  have b: "MarshalPropertyValue (Some ?c1) (PResource ''u'') ?o = Inr (Value_StringValue ''i-123'', True)"
    using MarshalPropertyValue_resource[where opts = ?o and c = ?c1 and u = "''u''"
        and res = "Resource ''i-123''"] a
    by simp
  have c: "MarshalPropertyValue None (PResource ''u'') ?raw = Inr (Value_StringValue ''u'', True)"
    using MarshalPropertyValue_resource[where opts = ?raw and ctx = None and u = "''u''"]
    by simp
  have d: "MarshalPropertyValue None (PResource ''u'') ?o = Inl NilContext"
    using MarshalPropertyValue_resource[where opts = ?o and u = "''u''"]
    by simp
  have e: "MarshalPropertyValue (Some ?c2) (PResource ''u'') ?olds = Inr (Value_StringValue ''i-old'', True)"
    using MarshalPropertyValue_resource[where opts = ?olds and c = ?c2 and u = "''u''"
        and oldid = "''i-old''"]
    by simp
  have f: "MarshalPropertyValue (Some ?c2) (PResource ''u'') ?o = Inl (URNNotFound ''u'')"
    using MarshalPropertyValue_resource[where opts = ?o and c = ?c2 and u = "''u''"]
    by simp
  from a b c d e f show ?thesis by blast
qed

section \<open>The known flag\<close>

text \<open>
  C8: null, bool, number and string values are marshaled to the matching wire kind and
  reported known. A resource value is reported known: on every input where it resolves
  (\<open>URN_resolves\<close>) the call returns a wire value with the flag true, on every other input
  the call faults and reports nothing. An array returns exactly when each element does, and
  is then reported known exactly when every element is reported known. A computed or an
  output value is marshaled as its eventual value is (same wire value, same fault) and is
  reported unknown whatever flag the eventual value had.
\<close>

theorem MarshalPropertyValue_known:
  "MarshalPropertyValue ctx PNull opts = Inr (Value_NullValue, True)
   \<and> MarshalPropertyValue ctx (PBool b) opts = Inr (Value_BoolValue b, True)
   \<and> MarshalPropertyValue ctx (PNumber n) opts = Inr (Value_NumberValue n, True)
   \<and> MarshalPropertyValue ctx (PString s) opts = Inr (Value_StringValue s, True)
   \<and> (URN_resolves ctx opts u \<longrightarrow>
        (\<exists>w. MarshalPropertyValue ctx (PResource u) opts = Inr (w, True)))
   \<and> (\<not> URN_resolves ctx opts u \<longrightarrow>
        (\<exists>f. MarshalPropertyValue ctx (PResource u) opts = Inl f))
   \<and> (\<forall>w known. MarshalPropertyValue ctx (PResource u) opts = Inr (w, known) \<longrightarrow> known)
   \<and> ((\<exists>r. MarshalPropertyValue ctx (PArray arr) opts = Inr r)
        \<longleftrightarrow> (\<forall>x\<in>set arr. \<exists>r. MarshalPropertyValue ctx x opts = Inr r))
   \<and> (\<forall>w known. MarshalPropertyValue ctx (PArray arr) opts = Inr (w, known) \<longrightarrow>
         (known \<longleftrightarrow> (\<forall>x\<in>set arr. \<exists>w'. MarshalPropertyValue ctx x opts = Inr (w', True))))
   \<and> (\<forall>w known. MarshalPropertyValue ctx e opts = Inr (w, known) \<longrightarrow>
         MarshalPropertyValue ctx (PComputed e) opts = Inr (w, False)
         \<and> MarshalPropertyValue ctx (POutput e) opts = Inr (w, False))
   \<and> (\<forall>f. MarshalPropertyValue ctx e opts = Inl f \<longrightarrow>
         MarshalPropertyValue ctx (PComputed e) opts = Inl f
         \<and> MarshalPropertyValue ctx (POutput e) opts = Inl f)"
proof -
  have res: "\<forall>w known. MarshalPropertyValue ctx (PResource u) opts = Inr (w, known) \<longrightarrow> known"
    by (auto split: option.splits if_splits sum.splits)
  have rok: "URN_resolves ctx opts u \<longrightarrow>
        (\<exists>w. MarshalPropertyValue ctx (PResource u) opts = Inr (w, True))"
    using URN_resolves_iff[of ctx opts u] by blast
  have rno: "\<not> URN_resolves ctx opts u \<longrightarrow>
        (\<exists>f. MarshalPropertyValue ctx (PResource u) opts = Inl f)"
    using URN_resolves_faults[of ctx opts u] by blast
  have arr: "\<forall>w known. MarshalPropertyValue ctx (PArray arr) opts = Inr (w, known) \<longrightarrow>
         (known \<longleftrightarrow> (\<forall>x\<in>set arr. \<exists>w'. MarshalPropertyValue ctx x opts = Inr (w', True)))"
    using MarshalPropertyValue_PArray_known by blast
  have ev: "\<forall>w known. MarshalPropertyValue ctx e opts = Inr (w, known) \<longrightarrow>
         MarshalPropertyValue ctx (PComputed e) opts = Inr (w, False)
         \<and> MarshalPropertyValue ctx (POutput e) opts = Inr (w, False)"
    by simp
  have fl: "\<forall>f. MarshalPropertyValue ctx e opts = Inl f \<longrightarrow>
         MarshalPropertyValue ctx (PComputed e) opts = Inl f
         \<and> MarshalPropertyValue ctx (POutput e) opts = Inl f"
    by simp
  have sc: "MarshalPropertyValue ctx PNull opts = Inr (Value_NullValue, True)
   \<and> MarshalPropertyValue ctx (PBool b) opts = Inr (Value_BoolValue b, True)
   \<and> MarshalPropertyValue ctx (PNumber n) opts = Inr (Value_NumberValue n, True)
   \<and> MarshalPropertyValue ctx (PString s) opts = Inr (Value_StringValue s, True)"
    by simp
  from sc rok rno res MarshalPropertyValue_PArray_returns[of ctx arr opts] arr ev fl
  show ?thesis by blast
qed

theorem MarshalPropertyValue_known_witness:
  "MarshalPropertyValue None (PString ''x'') \<lparr>PermitOlds = False, RawURNs = False\<rparr>
     = Inr (Value_StringValue ''x'', True)
   \<and> URN_resolves (Some \<lparr>URNRes = [''u'' \<mapsto> Resource ''i-123''], URNOldIDs = Map.empty\<rparr>)
        \<lparr>PermitOlds = False, RawURNs = False\<rparr> ''u''
   \<and> (\<exists>w. MarshalPropertyValue
              (Some \<lparr>URNRes = [''u'' \<mapsto> Resource ''i-123''], URNOldIDs = Map.empty\<rparr>)
              (PResource ''u'') \<lparr>PermitOlds = False, RawURNs = False\<rparr> = Inr (w, True))
   \<and> MarshalPropertyValue
        (Some \<lparr>URNRes = [''u'' \<mapsto> Resource ''i-123''], URNOldIDs = Map.empty\<rparr>)
        (PArray [PResource ''u'', PBool True]) \<lparr>PermitOlds = False, RawURNs = False\<rparr>
     = Inr (Value_ListValue (Some [Some (Value_StringValue ''i-123''), Some (Value_BoolValue True)]),
            True)
   \<and> MarshalPropertyValue None (PComputed (PString ''x'')) \<lparr>PermitOlds = False, RawURNs = False\<rparr>
     = Inr (Value_StringValue ''x'', False)
   \<and> MarshalPropertyValue None (POutput (PString ''x'')) \<lparr>PermitOlds = False, RawURNs = False\<rparr>
     = Inr (Value_StringValue ''x'', False)
   \<and> MarshalPropertyValue None (PArray [PBool True, PComputed (PString ''x'')])
        \<lparr>PermitOlds = False, RawURNs = False\<rparr>
     = Inr (Value_ListValue (Some [Some (Value_BoolValue True), Some (Value_StringValue ''x'')]),
            False)
   \<and> \<not> (\<exists>w'. MarshalPropertyValue None (PComputed (PString ''x''))
                 \<lparr>PermitOlds = False, RawURNs = False\<rparr> = Inr (w', True))"
proof -
  let ?o = "\<lparr>PermitOlds = False, RawURNs = False\<rparr>"
  let ?c = "Some \<lparr>URNRes = [''u'' \<mapsto> Resource ''i-123''], URNOldIDs = Map.empty\<rparr>"
  note k = MarshalPropertyValue_known[where ctx = None and opts = ?o and s = "''x''"
      and e = "PString ''x''" and arr = "[PBool True, PComputed (PString ''x'')]"]
  note kr = MarshalPropertyValue_known[where ctx = ?c and opts = ?o and u = "''u''"
      and arr = "[PResource ''u'', PBool True]"]
  from k have a: "MarshalPropertyValue None (PString ''x'') ?o = Inr (Value_StringValue ''x'', True)"
    by blast
  from k a have b: "MarshalPropertyValue None (PComputed (PString ''x'')) ?o
                      = Inr (Value_StringValue ''x'', False)"
    and c: "MarshalPropertyValue None (POutput (PString ''x'')) ?o
                      = Inr (Value_StringValue ''x'', False)"
    by blast+
  have d: "MarshalPropertyValue None (PArray [PBool True, PComputed (PString ''x'')]) ?o
     = Inr (Value_ListValue (Some [Some (Value_BoolValue True), Some (Value_StringValue ''x'')]),
            False)"
    by (simp add: MarshalPropertyValue.simps(5))
  from b have e: "\<not> (\<exists>w'. MarshalPropertyValue None (PComputed (PString ''x'')) ?o = Inr (w', True))"
    by simp
  have r1: "URN_resolves ?c ?o ''u''" by (simp add: URN_resolves_def)
  from kr r1 have r2: "\<exists>w. MarshalPropertyValue ?c (PResource ''u'') ?o = Inr (w, True)"
    by blast
  have r3: "MarshalPropertyValue ?c (PArray [PResource ''u'', PBool True]) ?o
     = Inr (Value_ListValue (Some [Some (Value_StringValue ''i-123''), Some (Value_BoolValue True)]),
            True)"
    by (simp add: MarshalPropertyValue.simps(5))
  from a r1 r2 r3 b c d e show ?thesis by blast
qed

section \<open>Typed accessors: properties\<close>

lemma fmdom_lookup_iff: "k |\<in>| fmdom m \<longleftrightarrow> fmlookup m k \<noteq> None"
  by (metis fmdom_notD fmdom_notI)

lemma IsNull_iff: "IsNull v \<longleftrightarrow> v = PNull"
  by (cases v) simp_all

lemma OrErr_contractI:
  assumes "\<And>m k req. acc m k req =
     (let v = PropertyMap_index m k; has = (k |\<in>| fmdom m) in
      if has \<and> \<not> IsNull v then
        if \<not> Is v then (None, Some (Errorf msg k))
        else (Some (Val v), None)
      else if req then (None, Some (ReqError k))
      else (None, None))"
  shows "OrErr_contract Is Val acc"
  unfolding OrErr_contract_def
  by (auto simp: assms Let_def fmdom_lookup_iff PropertyMap_index_def IsNull_iff)

lemma BoolOrErr_contract: "OrErr_contract IsBool BoolValue BoolOrErr"
  by (rule OrErr_contractI) (simp add: BoolOrErr_def)

lemma NumberOrErr_contract: "OrErr_contract IsNumber NumberValue NumberOrErr"
  by (rule OrErr_contractI) (simp add: NumberOrErr_def)

lemma StringOrErr_contract: "OrErr_contract IsString StringValue StringOrErr"
  by (rule OrErr_contractI) (simp add: StringOrErr_def)

lemma ArrayOrErr_contract: "OrErr_contract IsArray ArrayValue ArrayOrErr"
  by (rule OrErr_contractI) (simp add: ArrayOrErr_def)

lemma ObjectOrErr_contract: "OrErr_contract IsObject ObjectValue ObjectOrErr"
  by (rule OrErr_contractI) (simp add: ObjectOrErr_def)

lemma ResourceOrErr_contract: "OrErr_contract IsResource ResourceValue ResourceOrErr"
  by (rule OrErr_contractI) (simp add: ResourceOrErr_def)

lemma ComputedOrErr_contract: "OrErr_contract IsComputed ComputedValue ComputedOrErr"
  by (rule OrErr_contractI) (simp add: ComputedOrErr_def)

lemma OutputOrErr_contract: "OrErr_contract IsOutput OutputValue OutputOrErr"
  by (rule OrErr_contractI) (simp add: OutputOrErr_def)

text \<open>
  C7: each of the eight accessors \<open>BoolOrErr\<close> ... \<open>OutputOrErr\<close> meets the contract: the
  typed value and no error when the key is present with the right kind; nil and no error when
  the key is absent or null-valued and not required; the \<open>ReqError\<close> carrying the key when it
  is absent or null-valued and required; an error that is not a \<open>ReqError\<close> when the key is
  present with another non-null kind. \<open>IsReqError\<close> tells the two errors apart, and the
  extractors return what the value holds.
\<close>

theorem OrErr_accessors:
  "OrErr_contract IsBool BoolValue BoolOrErr
   \<and> OrErr_contract IsNumber NumberValue NumberOrErr
   \<and> OrErr_contract IsString StringValue StringOrErr
   \<and> OrErr_contract IsArray ArrayValue ArrayOrErr
   \<and> OrErr_contract IsObject ObjectValue ObjectOrErr
   \<and> OrErr_contract IsResource ResourceValue ResourceOrErr
   \<and> OrErr_contract IsComputed ComputedValue ComputedOrErr
   \<and> OrErr_contract IsOutput OutputValue OutputOrErr
   \<and> IsReqError (Some (ReqError k)) \<and> \<not> IsReqError (Some (Errorf msg k)) \<and> \<not> IsReqError None
   \<and> BoolValue (PBool b) = b \<and> NumberValue (PNumber n) = n \<and> StringValue (PString s) = s
   \<and> ArrayValue (PArray arr) = arr \<and> ObjectValue (PObject obj) = obj
   \<and> ResourceValue (PResource u) = u \<and> ComputedValue (PComputed e) = e
   \<and> OutputValue (POutput e) = e"
  by (simp add: BoolOrErr_contract NumberOrErr_contract StringOrErr_contract ArrayOrErr_contract
        ObjectOrErr_contract ResourceOrErr_contract ComputedOrErr_contract OutputOrErr_contract)

theorem OrErr_accessors_witness:
  "StringOrErr (fmupd ''k'' (PString ''hello'') fmempty) ''k'' True = (Some ''hello'', None)
   \<and> StringOrErr fmempty ''k'' True = (None, Some (ReqError ''k''))
   \<and> StringOrErr (fmupd ''k'' PNull fmempty) ''k'' False = (None, None)
   \<and> (\<exists>e. StringOrErr (fmupd ''k'' (PNumber 1) fmempty) ''k'' True = (None, Some e)
           \<and> \<not> IsReqError (Some e))
   \<and> IsReqError (Some (ReqError ''k''))"
proof -
  note acc = OrErr_accessors[where k = "''k''" and s = "''hello''"]
  from acc have c: "OrErr_contract IsString StringValue StringOrErr"
    and sv: "StringValue (PString ''hello'') = ''hello''"
    and re: "IsReqError (Some (ReqError ''k''))" by blast+
  note c' = c[unfolded OrErr_contract_def, rule_format]
  have 1: "StringOrErr (fmupd ''k'' (PString ''hello'') fmempty) ''k'' True = (Some ''hello'', None)"
    using c'[THEN conjunct1, rule_format, of "fmupd ''k'' (PString ''hello'') fmempty" "''k''"
               "PString ''hello''" True] sv
    by simp
  have 2: "StringOrErr fmempty ''k'' True = (None, Some (ReqError ''k''))"
    using c'[THEN conjunct2, THEN conjunct2, THEN conjunct1, of fmempty "''k''" True]
    by simp
  have 3: "StringOrErr (fmupd ''k'' PNull fmempty) ''k'' False = (None, None)"
    using c'[THEN conjunct2, THEN conjunct1, of "fmupd ''k'' PNull fmempty" "''k''" False]
    by simp
  have 4: "\<exists>e. StringOrErr (fmupd ''k'' (PNumber 1) fmempty) ''k'' True = (None, Some e)
           \<and> \<not> IsReqError (Some e)"
    using c'[THEN conjunct2, THEN conjunct2, THEN conjunct2, rule_format,
             of "fmupd ''k'' (PNumber 1) fmempty" "''k''" "PNumber 1" True]
    by simp
  from 1 2 3 4 re show ?thesis by blast
qed

section \<open>Unmarshaling: the loops\<close>

declare UnmarshalProperties.simps(2) [simp del]

lemma UnmarshalProperties_fold:
  "UnmarshalProperties (Some flds) =
     fold (unmarshal_field_step UnmarshalPropertyValue flds)
       (sorted_list_of_fset (fmdom flds)) (Inr fmempty)"
  by (simp only: UnmarshalProperties.simps unmarshal_field_step_def)

lemma UnmarshalPropertyValue_List_fold:
  "UnmarshalPropertyValue (Some (Value_ListValue lst)) =
     (case fold (unmarshal_elem_step UnmarshalPropertyValue) (GetValues lst) (Inr []) of
        Inl f \<Rightarrow> Inl f
      | Inr elems \<Rightarrow> Inr (PArray elems))"
  by (simp only: UnmarshalPropertyValue.simps unmarshal_elem_step_def)

declare UnmarshalPropertyValue.simps(6) [simp del]

lemma uelem_step_Inl [simp]: "unmarshal_elem_step u elem (Inl f) = Inl f"
  by (simp add: unmarshal_elem_step_def)

lemma uelem_step_Inr:
  "unmarshal_elem_step u elem (Inr elems) =
     (case u elem of Inl f \<Rightarrow> Inl f | Inr pv \<Rightarrow> Inr (elems @ [pv]))"
  by (simp add: unmarshal_elem_step_def)

lemma fold_uelem_step_Inl [simp]: "fold (unmarshal_elem_step u) es (Inl f) = Inl f"
  by (induction es) simp_all

lemma fold_uelem_step_ok:
  "list_all2 (\<lambda>e pv. u e = Inr pv) es pvs \<Longrightarrow>
   fold (unmarshal_elem_step u) es (Inr acc) = Inr (acc @ pvs)"
  by (induction es pvs arbitrary: acc rule: list_all2_induct) (simp_all add: uelem_step_Inr)

lemma fold_uelem_step_fault:
  "e \<in> set es \<Longrightarrow> u e = Inl f \<Longrightarrow> \<exists>f'. fold (unmarshal_elem_step u) es acc = Inl f'"
proof (induction es arbitrary: acc)
  case Nil
  then show ?case by simp
next
  case (Cons x xs)
  show ?case
  proof (cases "unmarshal_elem_step u x acc")
    case (Inl f')
    then show ?thesis by simp
  next
    case (Inr elems)
    then obtain acc' where acc: "acc = Inr acc'" by (cases acc) simp_all
    with Inr have ux: "\<exists>pv. u x = Inr pv"
      by (cases "u x") (simp_all add: uelem_step_Inr)
    with Cons.prems have "e \<in> set xs" by auto
    from Cons.IH[OF this Cons.prems(2)] show ?thesis by simp
  qed
qed

lemma ufield_step_Inl [simp]: "unmarshal_field_step u flds k (Inl f) = Inl f"
  by (simp add: unmarshal_field_step_def)

lemma ufield_step_Inr:
  "unmarshal_field_step u flds k (Inr result) =
     (case u (Fields_index flds k) of Inl f \<Rightarrow> Inl f | Inr pv \<Rightarrow> Inr (fmupd k pv result))"
  by (simp add: unmarshal_field_step_def)

lemma fold_ufield_step_Inl [simp]: "fold (unmarshal_field_step u flds) keys (Inl f) = Inl f"
  by (induction keys) simp_all

lemma fold_ufield_step_ok:
  "(\<forall>k\<in>set keys. u (Fields_index flds k) = Inr (h k)) \<Longrightarrow>
   fold (unmarshal_field_step u flds) keys (Inr result)
     = Inr (fold (\<lambda>k r. fmupd k (h k) r) keys result)"
  by (induction keys arbitrary: result) (simp_all add: ufield_step_Inr)

section \<open>Round trip\<close>

lemma list_all2_map_left:
  "list_all2 P (map f xs) ys \<longleftrightarrow> list_all2 (\<lambda>x y. P (f x) y) xs ys"
  by (simp add: list_all2_map1)

lemma MarshalPropertyValue_roundtrip:
  "everywhere (\<lambda>v. \<not> IsResource v \<and> \<not> IsComputed v \<and> \<not> IsOutput v) v \<Longrightarrow>
   \<exists>w. MarshalPropertyValue ctx v opts = Inr (w, True) \<and> UnmarshalPropertyValue (Some w) = Inr v"
proof (induction v)
  case (PArray arr)
  let ?P = "\<lambda>x r. MarshalPropertyValue ctx x opts = Inr r \<and> snd r
                   \<and> UnmarshalPropertyValue (Some (fst r)) = Inr x"
  have "\<forall>x\<in>set arr. \<exists>r. ?P x r"
  proof
    fix x assume x: "x \<in> set arr"
    with PArray.prems have "everywhere (\<lambda>v. \<not> IsResource v \<and> \<not> IsComputed v \<and> \<not> IsOutput v) x"
      by simp
    from PArray.IH[OF x this] show "\<exists>r. ?P x r" by auto
  qed
  from list_all2_ex[OF this] obtain rs where rs: "list_all2 ?P arr rs" by blast
  have m: "list_all2 (\<lambda>x r. MarshalPropertyValue ctx x opts = Inr r) arr rs"
    using rs by (rule list_all2_mono) simp
  have kn: "list_all snd rs"
    using rs by (induction arr rs rule: list_all2_induct) simp_all
  have u: "list_all2 (\<lambda>e pv. UnmarshalPropertyValue e = Inr pv) (map (\<lambda>r. Some (fst r)) rs) arr"
    using rs by (induction arr rs rule: list_all2_induct) simp_all
  have "MarshalPropertyValue ctx (PArray arr) opts
          = Inr (Value_ListValue (Some (map (\<lambda>r. Some (fst r)) rs)), True)"
    using MarshalPropertyValue_PArray_ok[OF m] kn by simp
  moreover have "UnmarshalPropertyValue (Some (Value_ListValue (Some (map (\<lambda>r. Some (fst r)) rs))))
                   = Inr (PArray arr)"
    unfolding UnmarshalPropertyValue_List_fold
    using fold_uelem_step_ok[OF u, of "[]"] by (simp add: GetValues_def)
  ultimately show ?case by blast
next
  case (PObject obj)
  let ?J = "\<lambda>v. \<not> IsResource v \<and> \<not> IsComputed v \<and> \<not> IsOutput v"
  have each: "\<exists>w. MarshalPropertyValue ctx v opts = Inr (w, True)
                  \<and> UnmarshalPropertyValue (Some w) = Inr v \<and> \<not> IsOutput v"
    if v: "fmlookup obj k = Some v" for k v
  proof -
    have ran: "v \<in> fmran' obj" using v by (rule fmran'I)
    have ev: "everywhere ?J v" using PObject.prems v by (rule everywhere_PObject_lookup)
    then have "\<not> IsOutput v" by (cases v) simp_all
    with PObject.IH[OF ran ev] show ?thesis by blast
  qed
  have "\<forall>k v. fmlookup obj k = Some v \<longrightarrow> \<not> IsOutput v
          \<longrightarrow> (\<exists>r. MarshalPropertyValue ctx v opts = Inr r)"
    using each by blast
  from MarshalPropertiesWithUnknowns_succeeds[OF this] obtain s unk where
    m: "MarshalPropertiesWithUnknowns ctx obj opts = Inr (s, unk)" by blast
  have "\<forall>k v. fmlookup obj k = Some v \<longrightarrow> \<not> IsOutput v
          \<longrightarrow> (\<exists>mv. MarshalPropertyValue ctx v opts = Inr (mv, True))"
    using each by blast
  with MarshalPropertiesWithUnknowns_unk_None[OF m] have unk: "unk = None" by simp
  have no: "\<forall>k v. fmlookup obj k = Some v \<longrightarrow> \<not> IsOutput v" using each by blast
  have dom: "fmdom s = fmdom obj" using m no by (rule MarshalPropertiesWithUnknowns_fmdom)
  have fld: "UnmarshalPropertyValue (Fields_index s k) = Inr (PropertyMap_index obj k)"
    if k: "k \<in> set (sorted_list_of_fset (fmdom s))" for k
  proof -
    from k dom have "k |\<in>| fmdom obj" by simp
    then obtain v where v: "fmlookup obj k = Some v" by (auto dest: fmdomE)
    from each[OF v] obtain w where
      w: "MarshalPropertyValue ctx v opts = Inr (w, True)"
         "UnmarshalPropertyValue (Some w) = Inr v" "\<not> IsOutput v" by blast
    from MarshalPropertiesWithUnknowns_present[OF m v w(3)] w(1)
    have "fmlookup s k = Some (Some w)" by auto
    with w(2) v show ?thesis by (simp add: Fields_index_def PropertyMap_index_def)
  qed
  have "UnmarshalProperties (Some s)
          = Inr (fold (\<lambda>k r. fmupd k (PropertyMap_index obj k) r)
                   (sorted_list_of_fset (fmdom s)) fmempty)"
    unfolding UnmarshalProperties_fold
    by (rule fold_ufield_step_ok) (use fld in blast)
  also have "fold (\<lambda>k r. fmupd k (PropertyMap_index obj k) r)
                (sorted_list_of_fset (fmdom s)) fmempty = obj"
  proof (rule fmap_ext)
    fix k
    show "fmlookup (fold (\<lambda>k r. fmupd k (PropertyMap_index obj k) r)
                (sorted_list_of_fset (fmdom s)) fmempty) k = fmlookup obj k"
    proof (cases "fmlookup obj k")
      case None
      then have "k |\<notin>| fmdom obj" by (simp add: fmdom_notI)
      with None dom show ?thesis by (simp add: fold_fmupd_lookup)
    next
      case (Some v)
      then have "k |\<in>| fmdom obj" by (simp add: fmdomI)
      with Some dom show ?thesis by (simp add: fold_fmupd_lookup PropertyMap_index_def)
    qed
  qed
  finally have u: "UnmarshalProperties (Some s) = Inr obj" .
  from m unk u show ?case by simp
qed simp_all

text \<open>
  C3: for a property map with no resource, computed or output value anywhere, marshaling
  returns a wire struct and no unknown keys (for any context and options, the default
  options included), and unmarshaling that struct returns the map itself.
\<close>

theorem Unmarshal_Marshal_roundtrip:
  assumes "everywhere (\<lambda>v. \<not> IsResource v \<and> \<not> IsComputed v \<and> \<not> IsOutput v) (PObject m)"
  shows "\<exists>s. MarshalPropertiesWithUnknowns ctx m opts = Inr (s, None)
             \<and> UnmarshalProperties (Some s) = Inr m"
proof -
  from MarshalPropertyValue_roundtrip[OF assms, of ctx opts] obtain w where
    w: "MarshalPropertyValue ctx (PObject m) opts = Inr (w, True)"
       "UnmarshalPropertyValue (Some w) = Inr (PObject m)" by blast
  from w(1) obtain s where s: "MarshalPropertiesWithUnknowns ctx m opts = Inr (s, None)"
    and ws: "w = Value_StructValue (Some s)"
    by (auto split: sum.splits)
  from w(2) ws have "UnmarshalProperties (Some s) = Inr m"
    by (auto split: sum.splits)
  with s show ?thesis by blast
qed

theorem Unmarshal_Marshal_roundtrip_witness:
  "everywhere (\<lambda>v. \<not> IsResource v \<and> \<not> IsComputed v \<and> \<not> IsOutput v)
     (PObject (fmupd ''a'' (PArray [PNumber 1, PNull, PObject (fmupd ''c'' (PString ''x'') fmempty)])
                (fmupd ''b'' (PBool True) fmempty)))
   \<and> (\<exists>s. MarshalPropertiesWithUnknowns None
              (fmupd ''a'' (PArray [PNumber 1, PNull, PObject (fmupd ''c'' (PString ''x'') fmempty)])
                (fmupd ''b'' (PBool True) fmempty))
              \<lparr>PermitOlds = False, RawURNs = False\<rparr> = Inr (s, None)
          \<and> UnmarshalProperties (Some s)
              = Inr (fmupd ''a'' (PArray [PNumber 1, PNull, PObject (fmupd ''c'' (PString ''x'') fmempty)])
                      (fmupd ''b'' (PBool True) fmempty)))"
proof -
  let ?m = "fmupd ''a'' (PArray [PNumber 1, PNull, PObject (fmupd ''c'' (PString ''x'') fmempty)])
                (fmupd ''b'' (PBool True) fmempty)"
  have h: "everywhere (\<lambda>v. \<not> IsResource v \<and> \<not> IsComputed v \<and> \<not> IsOutput v) (PObject ?m)"
    by (simp add: PropertyMap_index_def)
  from Unmarshal_Marshal_roundtrip[OF h, of None "\<lparr>PermitOlds = False, RawURNs = False\<rparr>"] h
  show ?thesis by blast
qed

section \<open>Unmarshaling a value\<close>

text \<open>
  C6, as stated, fails at the nil wire value: \<open>UnmarshalPropertyValue\<close> guards its switch
  with \<open>v != nil\<close> and returns the null property for nil, it does not fault.
\<close>

theorem UnmarshalPropertyValue_nil_returns_null:
  "UnmarshalPropertyValue None = Inr PNull"
  by simp

text \<open>
  C6, amended: the null, bool, number and string kinds map to the matching property; a list
  maps to the array of its unmarshaled elements when every element unmarshals, and faults
  when one of them does; a struct maps to the object that \<open>UnmarshalProperties\<close> returns, or
  to its fault; a value with no recognized kind is a fault; the nil wire value is the null
  property.
\<close>

theorem UnmarshalPropertyValue_kinds:
  "UnmarshalPropertyValue (Some Value_NullValue) = Inr PNull
   \<and> UnmarshalPropertyValue (Some (Value_BoolValue b)) = Inr (PBool b)
   \<and> UnmarshalPropertyValue (Some (Value_NumberValue n)) = Inr (PNumber n)
   \<and> UnmarshalPropertyValue (Some (Value_StringValue s)) = Inr (PString s)
   \<and> (list_all2 (\<lambda>e pv. UnmarshalPropertyValue e = Inr pv) (GetValues lst) pvs \<longrightarrow>
        UnmarshalPropertyValue (Some (Value_ListValue lst)) = Inr (PArray pvs))
   \<and> ((\<exists>e\<in>set (GetValues lst). \<exists>f. UnmarshalPropertyValue e = Inl f) \<longrightarrow>
        (\<exists>f. UnmarshalPropertyValue (Some (Value_ListValue lst)) = Inl f))
   \<and> UnmarshalPropertyValue (Some (Value_StructValue st))
       = (case UnmarshalProperties st of Inl f \<Rightarrow> Inl f | Inr props \<Rightarrow> Inr (PObject props))
   \<and> UnmarshalPropertyValue (Some Value_KindUnset) = Inl UnrecognizedKind
   \<and> UnmarshalPropertyValue None = Inr PNull"
proof -
  have a: "list_all2 (\<lambda>e pv. UnmarshalPropertyValue e = Inr pv) (GetValues lst) pvs \<longrightarrow>
        UnmarshalPropertyValue (Some (Value_ListValue lst)) = Inr (PArray pvs)"
    unfolding UnmarshalPropertyValue_List_fold
    using fold_uelem_step_ok[of UnmarshalPropertyValue "GetValues lst" pvs "[]"] by simp
  have b: "(\<exists>e\<in>set (GetValues lst). \<exists>f. UnmarshalPropertyValue e = Inl f) \<longrightarrow>
        (\<exists>f. UnmarshalPropertyValue (Some (Value_ListValue lst)) = Inl f)"
  proof
    assume "\<exists>e\<in>set (GetValues lst). \<exists>f. UnmarshalPropertyValue e = Inl f"
    then obtain e f where e: "e \<in> set (GetValues lst)" "UnmarshalPropertyValue e = Inl f"
      by blast
    from fold_uelem_step_fault[where u = UnmarshalPropertyValue and acc = "Inr []", OF e]
    show "\<exists>f. UnmarshalPropertyValue (Some (Value_ListValue lst)) = Inl f"
      unfolding UnmarshalPropertyValue_List_fold by auto
  qed
  from a b show ?thesis by simp
qed

theorem UnmarshalPropertyValue_kinds_witness:
  "list_all2 (\<lambda>e pv. UnmarshalPropertyValue e = Inr pv)
     (GetValues (Some [Some (Value_BoolValue True), None])) [PBool True, PNull]
   \<and> UnmarshalPropertyValue (Some (Value_ListValue (Some [Some (Value_BoolValue True), None])))
       = Inr (PArray [PBool True, PNull])
   \<and> Some Value_KindUnset \<in> set (GetValues (Some [Some Value_KindUnset]))
   \<and> UnmarshalPropertyValue (Some Value_KindUnset) = Inl UnrecognizedKind
   \<and> (\<exists>f. UnmarshalPropertyValue (Some (Value_ListValue (Some [Some Value_KindUnset]))) = Inl f)"
proof -
  have h1: "list_all2 (\<lambda>e pv. UnmarshalPropertyValue e = Inr pv)
     (GetValues (Some [Some (Value_BoolValue True), None])) [PBool True, PNull]"
    by (simp add: GetValues_def)
  from UnmarshalPropertyValue_kinds[where lst = "Some [Some (Value_BoolValue True), None]"
      and pvs = "[PBool True, PNull]"] h1
  have c1: "UnmarshalPropertyValue (Some (Value_ListValue (Some [Some (Value_BoolValue True), None])))
       = Inr (PArray [PBool True, PNull])" by blast
  have h2: "Some Value_KindUnset \<in> set (GetValues (Some [Some Value_KindUnset]))"
    by (simp add: GetValues_def)
  have h3: "UnmarshalPropertyValue (Some Value_KindUnset) = Inl UnrecognizedKind" by simp
  from UnmarshalPropertyValue_kinds[where lst = "Some [Some Value_KindUnset]"] h2 h3
  have c2: "\<exists>f. UnmarshalPropertyValue (Some (Value_ListValue (Some [Some Value_KindUnset]))) = Inl f"
    by blast
  from h1 c1 h2 h3 c2 show ?thesis by blast
qed

end
